theory Spec2Isabelle
  imports Main "HOL-Library.Word" "HOL-Library.Sublist"
begin

unbundle bit_operations_syntax

section \<open>The vendor interface used by main_single_low_current.c\<close>

text \<open>
  The program is a sequence of calls into the vendor library (em_gpio, em_cmu, em_emu,
  em_iadc, em_ldma, em_rtcc) and of direct accesses to peripheral registers. The library
  and the device header are not part of the repository, so a call is recorded as an event
  carrying its arguments, in program order, and nothing is assumed about what the library
  does with them. Enumerations list the enumerators that the source names.
\<close>

datatype GPIO_Port_TypeDef = gpioPortA | gpioPortB | gpioPortC | gpioPortD

datatype GPIO_Mode_TypeDef = gpioModeDisabled | gpioModeInputPullFilter | gpioModePushPull

datatype CMU_Clock_TypeDef = cmuClock_IADCCLK | cmuClock_SYSCLK | cmuClock_RTCCCLK

datatype CMU_Select_TypeDef =
  cmuSelect_HFRCOEM23 | cmuSelect_FSRCO | cmuSelect_LFRCO | cmuSelect_LFXO

datatype CMU_HFRCOEM23Freq_TypeDef = cmuHFRCOEM23Freq_1M0Hz

datatype peripheral =
  IADC0 | USART0 | USART1 | USART2 | TIMER0 | TIMER1 | TIMER2 | TIMER3
  | ACMP0 | ACMP1 | I2C0 | I2C1 | GPCRC | HFRCO0 | HFXO0
  | RTCC | WDOG0 | WDOG1 | LETIMER0 | BURTC | LFRCO | LFXO

datatype register = EN_CLR peripheral | STATUS peripheral

text \<open>Addresses that the program passes around: the sample buffer, the IADC single FIFO
  data register and the base of the SRAM.\<close>

datatype address = addr_singleBuffer | addr_IADC0_SINGLEFIFODATA | SRAM_BASE

datatype IADC_Cmd_t = iadcCmdEnableTimer | iadcCmdStopSingle

datatype IADC_Warmup_t = iadcWarmupNormal
datatype IADC_CfgReference_t = iadcCfgReferenceVddx
datatype IADC_CfgAdcMode_t = iadcCfgModeNormal
datatype IADC_TriggerSel_t = iadcTriggerSelTimer
datatype IADC_FifoCfgDvl_t = IADC_SINGLEFIFOCFG_DVL_VALID1
datatype IADC_PosInput_t = iadcPosInputPortCPin4
datatype IADC_NegInput_t = iadcNegInputGnd
datatype LDMA_CtrlSize_t = ldmaCtrlSizeWord
datatype LDMA_PeripheralSignal_t = ldmaPeripheralSignal_IADC0_IADC_SINGLE
datatype RTCC_CntPresc_TypeDef = rtccCntPresc_256
datatype LDMA_IntFlag = LDMA_IF_DONE0

text \<open>
  Structures that the program initialises from a vendor macro and then modifies. A record
  has the fields that the source assigns; a field is \<open>None\<close> as long as it holds
  whatever the initialiser macro put there. The fields that the source never names stay
  as the macro left them and are not represented.
\<close>

record IADC_Init_t =
  warmup :: "IADC_Warmup_t option"
  srcClkPrescale :: "8 word option"
  timerCycles :: "nat option"

record IADC_Config_t =
  reference :: "IADC_CfgReference_t option"
  adcClkPrescale :: "32 word option"

text \<open>Of the array \<open>configs\<close> only element 0 is assigned.\<close>

record IADC_AllConfigs_t =
  configs0 :: IADC_Config_t

record IADC_InitSingle_t =
  triggerSelect :: "IADC_TriggerSel_t option"
  dataValidLevel :: "IADC_FifoCfgDvl_t option"
  start :: "bool option"
  fifoDmaWakeup :: "bool option"

record IADC_SingleInput_t =
  posInput :: "IADC_PosInput_t option"
  negInput :: "IADC_NegInput_t option"

record RTCC_Init_TypeDef =
  presc :: "RTCC_CntPresc_TypeDef option"
  cntWrapOnCCV1 :: "bool option"

text \<open>Structures passed on exactly as their initialiser macro built them.\<close>

datatype LDMA_Init_t = LDMA_INIT_DEFAULT
datatype LDMA_TransferCfg_t = LDMA_TRANSFER_CFG_PERIPHERAL LDMA_PeripheralSignal_t
datatype EMU_EM23Init_TypeDef = EMU_EM23INIT_DEFAULT
datatype CMU_HFXOInit_TypeDef = CMU_HFXOINIT_WSTK_DEFAULT

text \<open>
  The link descriptor. \<open>initialiser\<close> names the macro invocation that built the
  value (source, destination, count and link jump as written in the call), or that the
  value is the zero-initialised global; the five other fields are those that initLDMA
  assigns afterwards.
\<close>

datatype LDMA_Descriptor_initialiser =
  static_zero
  | LINKREL_P2M_BYTE address address "32 word" nat

record LDMA_Descriptor_t =
  initialiser :: LDMA_Descriptor_initialiser
  xfer_size :: "LDMA_CtrlSize_t option"
  decLoopCnt :: "nat option"
  xferCnt :: "nat option"
  doneIfs :: "nat option"
  ignoreSrec :: "nat option"

datatype event =
  CHIP_Init
  | GPIO_PinModeSet GPIO_Port_TypeDef nat GPIO_Mode_TypeDef nat
  | GPIO_PinInGet GPIO_Port_TypeDef nat "32 word"
  | GPIO_PinOutSet GPIO_Port_TypeDef nat
  | EMU_EM23Init EMU_EM23Init_TypeDef
  | CMU_HFXOInit CMU_HFXOInit_TypeDef
  | CMU_HFRCOEM23BandSet CMU_HFRCOEM23Freq_TypeDef
  | CMU_ClockSelectSet CMU_Clock_TypeDef CMU_Select_TypeDef
  | IADC_reset peripheral
  | IADC_init peripheral IADC_Init_t IADC_AllConfigs_t
  | IADC_initSingle peripheral IADC_InitSingle_t IADC_SingleInput_t
  | IADC_command peripheral IADC_Cmd_t
  | LDMA_Init LDMA_Init_t
  | LDMA_StartTransfer nat LDMA_TransferCfg_t LDMA_Descriptor_t
  | LDMA_IntClear LDMA_IntFlag
  | RTCC_Init RTCC_Init_TypeDef
  | EMU_RamPowerDown address "32 word"
  | EMU_EnterEM2 bool
  | Reg_write register "32 word"
  | Reg_read register "32 word"

text \<open>
  \<open>GPIO_PinInGet p n v\<close> is a call that returned \<open>v\<close>; \<open>Reg_read r v\<close> is a read
  of the register \<open>r\<close> that gave \<open>v\<close>; \<open>LDMA_StartTransfer\<close> carries the contents
  of the descriptor that its pointer argument designates at the time of the call.

  What the vendor library computes and the device header defines, and the program uses
  as values, is a parameter of the model: the two routines that compute the IADC clock
  prescalers, called for their results only, and the masks of the bit ENS in the status
  registers of HFRCO0 and HFXO0.
\<close>

record sdk =
  IADC_calcSrcClkPrescale :: "peripheral \<Rightarrow> 32 word \<Rightarrow> 32 word \<Rightarrow> 8 word"
  IADC_calcAdcClkPrescale ::
    "peripheral \<Rightarrow> 32 word \<Rightarrow> 32 word \<Rightarrow> IADC_CfgAdcMode_t \<Rightarrow> 8 word \<Rightarrow> 32 word"
  HFRCO_STATUS_ENS_MASK :: "32 word"
  HFXO_STATUS_ENS_MASK :: "32 word"

section \<open>Defines and globals\<close>

definition NUM_SAMPLES :: nat where
  "NUM_SAMPLES = 1024"

definition HFRCOEM23_FREQ :: CMU_HFRCOEM23Freq_TypeDef where
  "HFRCOEM23_FREQ = cmuHFRCOEM23Freq_1M0Hz"

definition CLK_SRC_ADC_FREQ :: "32 word" where
  "CLK_SRC_ADC_FREQ = 1000000"

definition CLK_ADC_FREQ :: "32 word" where
  "CLK_ADC_FREQ = 1000000"

definition TIMER_CYCLES :: nat where
  "TIMER_CYCLES = 10000"

definition PB_PRESSED :: "32 word" where
  "PB_PRESSED = 0"

text \<open>
  The state of the program: the events so far (\<open>trace\<close>), the values that the
  hardware gives to the reads still to come, one per read and in the order of the reads
  (\<open>hw_reads\<close>), and the two globals. A polling loop that finds \<open>hw_reads\<close> empty is
  still polling when the observation ends: the outcome of a function that has a loop is
  \<open>Returned\<close> or \<open>Polling\<close>, with the state reached. The global singleBuffer is the
  array as the program itself stores to it, which it never does; the words that the LDMA
  moves into it are the work of the hardware and are not modelled.
\<close>

record state =
  trace :: "event list"
  hw_reads :: "32 word list"
  descriptor :: LDMA_Descriptor_t
  singleBuffer :: "32 word list"

datatype outcome = Returned state | Polling state

fun final :: "outcome \<Rightarrow> state" where
  "final (Returned s) = s"
| "final (Polling s) = s"

fun returned :: "outcome \<Rightarrow> bool" where
  "returned (Returned s) = True"
| "returned (Polling s) = False"

definition call :: "event \<Rightarrow> state \<Rightarrow> state" where
  "call e s = s\<lparr>trace := trace s @ [e]\<rparr>"

definition read_hw :: "(32 word \<Rightarrow> event) \<Rightarrow> state \<Rightarrow> (32 word \<times> state) option" where
  "read_hw ev s =
     (case hw_reads s of
        [] \<Rightarrow> None
      | v # vs \<Rightarrow> Some (v, s\<lparr>trace := trace s @ [ev v], hw_reads := vs\<rparr>))"

text \<open>Statements in sequence; a statement that is still polling keeps the rest from
  running.\<close>

definition stmt :: "(state \<Rightarrow> state) \<Rightarrow> state \<Rightarrow> outcome" where
  "stmt f s = Returned (f s)"

fun seq :: "(state \<Rightarrow> outcome) list \<Rightarrow> state \<Rightarrow> outcome" where
  "seq [] s = Returned s"
| "seq (f # fs) s = (case f s of Returned s' \<Rightarrow> seq fs s' | Polling s' \<Rightarrow> Polling s')"

section \<open>initIADC\<close>

definition IADC_INIT_DEFAULT :: IADC_Init_t where
  "IADC_INIT_DEFAULT = \<lparr>warmup = None, srcClkPrescale = None, timerCycles = None\<rparr>"

definition IADC_ALLCONFIGS_DEFAULT :: IADC_AllConfigs_t where
  "IADC_ALLCONFIGS_DEFAULT = \<lparr>configs0 = \<lparr>reference = None, adcClkPrescale = None\<rparr>\<rparr>"

definition IADC_INITSINGLE_DEFAULT :: IADC_InitSingle_t where
  "IADC_INITSINGLE_DEFAULT =
     \<lparr>triggerSelect = None, dataValidLevel = None, start = None, fifoDmaWakeup = None\<rparr>"

definition IADC_SINGLEINPUT_DEFAULT :: IADC_SingleInput_t where
  "IADC_SINGLEINPUT_DEFAULT = \<lparr>posInput = None, negInput = None\<rparr>"

definition initIADC :: "sdk \<Rightarrow> state \<Rightarrow> state" where
  "initIADC k s =
     (let init = IADC_INIT_DEFAULT;
          initAllConfigs = IADC_ALLCONFIGS_DEFAULT;
          initSingle = IADC_INITSINGLE_DEFAULT;
          initSingleInput = IADC_SINGLEINPUT_DEFAULT;
          s = call (IADC_reset IADC0) s;
          s = call (CMU_ClockSelectSet cmuClock_IADCCLK cmuSelect_HFRCOEM23) s;
          init = init\<lparr>warmup := Some iadcWarmupNormal\<rparr>;
          srcPresc = IADC_calcSrcClkPrescale k IADC0 CLK_SRC_ADC_FREQ 0;
          init = init\<lparr>srcClkPrescale := Some srcPresc\<rparr>;
          init = init\<lparr>timerCycles := Some TIMER_CYCLES\<rparr>;
          initAllConfigs = initAllConfigs
            \<lparr>configs0 := (configs0 initAllConfigs)\<lparr>reference := Some iadcCfgReferenceVddx\<rparr>\<rparr>;
          initAllConfigs = initAllConfigs
            \<lparr>configs0 := (configs0 initAllConfigs)
               \<lparr>adcClkPrescale :=
                  Some (IADC_calcAdcClkPrescale k IADC0 CLK_ADC_FREQ 0 iadcCfgModeNormal srcPresc)\<rparr>\<rparr>;
          initSingle = initSingle\<lparr>triggerSelect := Some iadcTriggerSelTimer\<rparr>;
          initSingle = initSingle\<lparr>dataValidLevel := Some IADC_SINGLEFIFOCFG_DVL_VALID1\<rparr>;
          initSingle = initSingle\<lparr>start := Some True\<rparr>;
          initSingle = initSingle\<lparr>fifoDmaWakeup := Some True\<rparr>;
          initSingleInput = initSingleInput\<lparr>posInput := Some iadcPosInputPortCPin4\<rparr>;
          initSingleInput = initSingleInput\<lparr>negInput := Some iadcNegInputGnd\<rparr>;
          s = call (IADC_init IADC0 init initAllConfigs) s;
          s = call (IADC_initSingle IADC0 initSingle initSingleInput) s
      in s)"

section \<open>initLDMA\<close>

definition LDMA_DESCRIPTOR_LINKREL_P2M_BYTE ::
    "address \<Rightarrow> address \<Rightarrow> 32 word \<Rightarrow> nat \<Rightarrow> LDMA_Descriptor_t" where
  "LDMA_DESCRIPTOR_LINKREL_P2M_BYTE src dest count linkjmp =
     \<lparr>initialiser = LINKREL_P2M_BYTE src dest count linkjmp,
      xfer_size = None, decLoopCnt = None, xferCnt = None, doneIfs = None, ignoreSrec = None\<rparr>"

definition initLDMA :: "address \<Rightarrow> 32 word \<Rightarrow> state \<Rightarrow> state" where
  "initLDMA buffer size' s =
     (let init = LDMA_INIT_DEFAULT;
          transferCfg = LDMA_TRANSFER_CFG_PERIPHERAL ldmaPeripheralSignal_IADC0_IADC_SINGLE;
          xfer = LDMA_DESCRIPTOR_LINKREL_P2M_BYTE addr_IADC0_SINGLEFIFODATA buffer size' 1;
          s = s\<lparr>descriptor := xfer\<rparr>;
          s = s\<lparr>descriptor := (descriptor s)\<lparr>xfer_size := Some ldmaCtrlSizeWord\<rparr>\<rparr>;
          s = s\<lparr>descriptor := (descriptor s)\<lparr>decLoopCnt := Some 1\<rparr>\<rparr>;
          s = s\<lparr>descriptor := (descriptor s)\<lparr>xferCnt := Some NUM_SAMPLES\<rparr>\<rparr>;
          s = s\<lparr>descriptor := (descriptor s)\<lparr>doneIfs := Some 1\<rparr>\<rparr>;
          s = s\<lparr>descriptor := (descriptor s)\<lparr>ignoreSrec := Some 0\<rparr>\<rparr>;
          s = call (LDMA_Init init) s;
          s = call (LDMA_StartTransfer 0 transferCfg (descriptor s)) s
      in s)"

section \<open>LDMA_IRQHandler\<close>

definition LDMA_IRQHandler :: "state \<Rightarrow> state" where
  "LDMA_IRQHandler s =
     (let s = call (LDMA_IntClear LDMA_IF_DONE0) s;
          s = call (IADC_command IADC0 iadcCmdStopSingle) s;
          s = call (GPIO_PinOutSet gpioPortB 1) s
      in s)"

section \<open>Disabling the clocks\<close>

text \<open>
  The loop of disableHFClocks: the second test is made only when the first is false
  (\<open>||\<close>), and each test reads its register anew.
\<close>

function disableHFClocks_wait :: "sdk \<Rightarrow> state \<Rightarrow> outcome" where
  "disableHFClocks_wait k s =
     (case read_hw (Reg_read (STATUS HFRCO0)) s of
        None \<Rightarrow> Polling s
      | Some (a, s1) \<Rightarrow>
          if a AND HFRCO_STATUS_ENS_MASK k \<noteq> 0 then disableHFClocks_wait k s1
          else (case read_hw (Reg_read (STATUS HFXO0)) s1 of
                  None \<Rightarrow> Polling s1
                | Some (b, s2) \<Rightarrow>
                    if b AND HFXO_STATUS_ENS_MASK k \<noteq> 0 then disableHFClocks_wait k s2
                    else Returned s2))"
  by pat_completeness auto
termination
  by (relation "measure (\<lambda>(k, s). length (hw_reads s))")
     (auto simp: read_hw_def split: list.splits)

definition disableHFClocks :: "sdk \<Rightarrow> state \<Rightarrow> outcome" where
  "disableHFClocks k =
     seq [stmt (call (Reg_write (EN_CLR USART0) 1)),
          stmt (call (Reg_write (EN_CLR USART1) 1)),
          stmt (call (Reg_write (EN_CLR USART2) 1)),
          stmt (call (Reg_write (EN_CLR TIMER0) 1)),
          stmt (call (Reg_write (EN_CLR TIMER1) 1)),
          stmt (call (Reg_write (EN_CLR TIMER2) 1)),
          stmt (call (Reg_write (EN_CLR TIMER3) 1)),
          stmt (call (Reg_write (EN_CLR ACMP0) 1)),
          stmt (call (Reg_write (EN_CLR ACMP1) 1)),
          stmt (call (Reg_write (EN_CLR I2C0) 1)),
          stmt (call (Reg_write (EN_CLR I2C1) 1)),
          stmt (call (Reg_write (EN_CLR GPCRC) 1)),
          stmt (call (CMU_ClockSelectSet cmuClock_SYSCLK cmuSelect_FSRCO)),
          disableHFClocks_wait k]"

text \<open>
  The loop of disableLFClocks: LFXO->STATUS is read only when LFRCO->STATUS was not
  zero (\<open>&&\<close>), and the loop goes on only when both were not zero.
\<close>

function disableLFClocks_wait :: "state \<Rightarrow> outcome" where
  "disableLFClocks_wait s =
     (case read_hw (Reg_read (STATUS LFRCO)) s of
        None \<Rightarrow> Polling s
      | Some (a, s1) \<Rightarrow>
          if a \<noteq> 0 then
            (case read_hw (Reg_read (STATUS LFXO)) s1 of
               None \<Rightarrow> Polling s1
             | Some (b, s2) \<Rightarrow> if b \<noteq> 0 then disableLFClocks_wait s2 else Returned s2)
          else Returned s1)"
  by pat_completeness auto
termination
  by (relation "measure (\<lambda>s. length (hw_reads s))")
     (auto simp: read_hw_def split: list.splits)

definition disableLFClocks :: "state \<Rightarrow> outcome" where
  "disableLFClocks =
     seq [stmt (call (Reg_write (EN_CLR RTCC) 1)),
          stmt (call (Reg_write (EN_CLR WDOG0) 1)),
          stmt (call (Reg_write (EN_CLR WDOG1) 1)),
          stmt (call (Reg_write (EN_CLR LETIMER0) 1)),
          stmt (call (Reg_write (EN_CLR BURTC) 1)),
          disableLFClocks_wait]"

definition disableClocks :: "sdk \<Rightarrow> state \<Rightarrow> outcome" where
  "disableClocks k = seq [disableHFClocks k, disableLFClocks]"

section \<open>em_EM2_RTCC\<close>

definition RTCC_INIT_DEFAULT :: RTCC_Init_TypeDef where
  "RTCC_INIT_DEFAULT = \<lparr>presc = None, cntWrapOnCCV1 = None\<rparr>"

text \<open>
  EMU_EnterEM2 is the last statement, and the processor sleeps inside it: the function
  has returned, in this model, when that call has been made.
\<close>

definition em_EM2_RTCC :: "sdk \<Rightarrow> CMU_Select_TypeDef \<Rightarrow> bool \<Rightarrow> state \<Rightarrow> outcome" where
  "em_EM2_RTCC k osc powerdownRam =
     seq [disableClocks k,
          stmt (call (CMU_ClockSelectSet cmuClock_RTCCCLK osc)),
          stmt (\<lambda>s.
            let rtccInit = RTCC_INIT_DEFAULT;
                rtccInit = rtccInit\<lparr>presc := Some rtccCntPresc_256\<rparr>;
                rtccInit = rtccInit\<lparr>cntWrapOnCCV1 := Some True\<rparr>
            in call (RTCC_Init rtccInit) s),
          stmt (\<lambda>s. if powerdownRam then call (EMU_RamPowerDown SRAM_BASE 0) s else s),
          stmt (call (EMU_EnterEM2 True))]"

section \<open>main\<close>

function main_wait_pressed :: "state \<Rightarrow> outcome" where
  "main_wait_pressed s =
     (case read_hw (GPIO_PinInGet gpioPortD 2) s of
        None \<Rightarrow> Polling s
      | Some (v, s') \<Rightarrow> if v \<noteq> PB_PRESSED then main_wait_pressed s' else Returned s')"
  by pat_completeness auto
termination
  by (relation "measure (\<lambda>s. length (hw_reads s))")
     (auto simp: read_hw_def split: list.splits)

function main_wait_released :: "state \<Rightarrow> outcome" where
  "main_wait_released s =
     (case read_hw (GPIO_PinInGet gpioPortD 2) s of
        None \<Rightarrow> Polling s
      | Some (v, s') \<Rightarrow> if v = PB_PRESSED then main_wait_released s' else Returned s')"
  by pat_completeness auto
termination
  by (relation "measure (\<lambda>s. length (hw_reads s))")
     (auto simp: read_hw_def split: list.splits)

text \<open>
  main, from its first statement to the call of EMU_EnterEM2 inside em_EM2_RTCC. The
  closing \<open>while(1)\<close> is the phase \<open>Halted\<close> of the machine below.
\<close>

definition main :: "sdk \<Rightarrow> state \<Rightarrow> outcome" where
  "main k =
     seq [stmt (call CHIP_Init),
          stmt (call (GPIO_PinModeSet gpioPortD 2 gpioModeInputPullFilter 1)),
          main_wait_pressed,
          main_wait_released,
          stmt (call (GPIO_PinModeSet gpioPortD 2 gpioModeDisabled 1)),
          stmt (call (GPIO_PinModeSet gpioPortB 1 gpioModePushPull 0)),
          stmt (call (EMU_EM23Init EMU_EM23INIT_DEFAULT)),
          stmt (call (CMU_HFXOInit CMU_HFXOINIT_WSTK_DEFAULT)),
          stmt (call (CMU_HFRCOEM23BandSet HFRCOEM23_FREQ)),
          stmt (initIADC k),
          stmt (initLDMA addr_singleBuffer (of_nat NUM_SAMPLES)),
          stmt (call (IADC_command IADC0 iadcCmdEnableTimer)),
          em_EM2_RTCC k cmuSelect_LFRCO False]"

section \<open>Reset, and the final loop of main\<close>

text \<open>
  The processor at reset: nothing has been done, the hardware will give the reads
  \<open>rs\<close>, and the globals are zero.
\<close>

datatype phase = Reset | Waiting | In_EM2 | Halted

record system =
  phase :: phase
  cpu :: state

definition descriptor_at_reset :: LDMA_Descriptor_t where
  "descriptor_at_reset =
     \<lparr>initialiser = static_zero,
      xfer_size = None, decLoopCnt = None, xferCnt = None, doneIfs = None, ignoreSrec = None\<rparr>"

definition power_on :: "32 word list \<Rightarrow> system" where
  "power_on rs =
     \<lparr>phase = Reset,
      cpu = \<lparr>trace = [], hw_reads = rs, descriptor = descriptor_at_reset,
             singleBuffer = replicate NUM_SAMPLES 0\<rparr>\<rparr>"


section \<open>Reading a trace\<close>





text \<open>A poll is an event that takes a value from the hardware; an operation is any other
  event.\<close>

fun is_poll :: "event \<Rightarrow> bool" where
  "is_poll (GPIO_PinInGet p n v) = True"
| "is_poll (Reg_read r v) = True"
| "is_poll _ = False"

definition operations :: "event list \<Rightarrow> event list" where
  "operations tr = filter (\<lambda>e. \<not> is_poll e) tr"

section \<open>Polls of the status registers\<close>

fun is_status_read :: "event \<Rightarrow> bool" where
  "is_status_read (Reg_read (STATUS p) v) = True"
| "is_status_read _ = False"

text \<open>\<open>status_polls s s'\<close>: from \<open>s\<close> to \<open>s'\<close> the program has only read status
  registers; the globals are as they were.\<close>

definition status_polls :: "state \<Rightarrow> state \<Rightarrow> bool" where
  "status_polls s s' \<longleftrightarrow>
     (\<exists>d. trace s' = trace s @ d \<and> list_all is_status_read d) \<and>
     descriptor s' = descriptor s \<and> singleBuffer s' = singleBuffer s"

text \<open>How the loop of disableLFClocks ends: on a read of LFRCO->STATUS that gave 0, or on
  a read of LFXO->STATUS that gave 0 right after one of LFRCO->STATUS that did not.\<close>

definition LF_exit :: "event list \<Rightarrow> bool" where
  "LF_exit tr \<longleftrightarrow>
     (\<exists>pre. tr = pre @ [Reg_read (STATUS LFRCO) 0]) \<or>
     (\<exists>pre a. a \<noteq> 0 \<and> tr = pre @ [Reg_read (STATUS LFRCO) a, Reg_read (STATUS LFXO) 0])"

section \<open>The events of the straight-line parts\<close>

text \<open>
  The events that each run of statements without a loop adds to the trace, in order
  (shown below to be what the functions add), and the descriptor as initLDMA leaves it
  when called by main.
\<close>

definition HF_writes :: "event list" where
  "HF_writes =
     [Reg_write (EN_CLR USART0) 1, Reg_write (EN_CLR USART1) 1, Reg_write (EN_CLR USART2) 1,
      Reg_write (EN_CLR TIMER0) 1, Reg_write (EN_CLR TIMER1) 1, Reg_write (EN_CLR TIMER2) 1,
      Reg_write (EN_CLR TIMER3) 1, Reg_write (EN_CLR ACMP0) 1, Reg_write (EN_CLR ACMP1) 1,
      Reg_write (EN_CLR I2C0) 1, Reg_write (EN_CLR I2C1) 1, Reg_write (EN_CLR GPCRC) 1,
      CMU_ClockSelectSet cmuClock_SYSCLK cmuSelect_FSRCO]"

definition LF_writes :: "event list" where
  "LF_writes =
     [Reg_write (EN_CLR RTCC) 1, Reg_write (EN_CLR WDOG0) 1, Reg_write (EN_CLR WDOG1) 1,
      Reg_write (EN_CLR LETIMER0) 1, Reg_write (EN_CLR BURTC) 1]"

definition EM2_entry :: "CMU_Select_TypeDef \<Rightarrow> bool \<Rightarrow> event list" where
  "EM2_entry osc powerdownRam =
     [CMU_ClockSelectSet cmuClock_RTCCCLK osc,
      RTCC_Init \<lparr>presc = Some rtccCntPresc_256, cntWrapOnCCV1 = Some True\<rparr>] @
     (if powerdownRam then [EMU_RamPowerDown SRAM_BASE 0] else []) @
     [EMU_EnterEM2 True]"

definition main_prologue :: "event list" where
  "main_prologue = [CHIP_Init, GPIO_PinModeSet gpioPortD 2 gpioModeInputPullFilter 1]"

definition started_descriptor :: LDMA_Descriptor_t where
  "started_descriptor =
     \<lparr>initialiser = LINKREL_P2M_BYTE addr_IADC0_SINGLEFIFODATA addr_singleBuffer 1024 1,
      xfer_size = Some ldmaCtrlSizeWord, decLoopCnt = Some 1, xferCnt = Some 1024,
      doneIfs = Some 1, ignoreSrec = Some 0\<rparr>"

definition initIADC_calls :: "sdk \<Rightarrow> event list" where
  "initIADC_calls k =
     [IADC_reset IADC0,
      CMU_ClockSelectSet cmuClock_IADCCLK cmuSelect_HFRCOEM23,
      IADC_init IADC0
        \<lparr>warmup = Some iadcWarmupNormal,
         srcClkPrescale = Some (IADC_calcSrcClkPrescale k IADC0 1000000 0),
         timerCycles = Some 10000\<rparr>
        \<lparr>configs0 =
           \<lparr>reference = Some iadcCfgReferenceVddx,
            adcClkPrescale =
              Some (IADC_calcAdcClkPrescale k IADC0 1000000 0 iadcCfgModeNormal
                      (IADC_calcSrcClkPrescale k IADC0 1000000 0))\<rparr>\<rparr>,
      IADC_initSingle IADC0
        \<lparr>triggerSelect = Some iadcTriggerSelTimer,
         dataValidLevel = Some IADC_SINGLEFIFOCFG_DVL_VALID1,
         start = Some True, fifoDmaWakeup = Some True\<rparr>
        \<lparr>posInput = Some iadcPosInputPortCPin4, negInput = Some iadcNegInputGnd\<rparr>]"

definition initLDMA_calls :: "event list" where
  "initLDMA_calls =
     [LDMA_Init LDMA_INIT_DEFAULT,
      LDMA_StartTransfer 0
        (LDMA_TRANSFER_CFG_PERIPHERAL ldmaPeripheralSignal_IADC0_IADC_SINGLE)
        started_descriptor]"

definition main_setup :: "sdk \<Rightarrow> event list" where
  "main_setup k =
     [GPIO_PinModeSet gpioPortD 2 gpioModeDisabled 1,
      GPIO_PinModeSet gpioPortB 1 gpioModePushPull 0,
      EMU_EM23Init EMU_EM23INIT_DEFAULT,
      CMU_HFXOInit CMU_HFXOINIT_WSTK_DEFAULT,
      CMU_HFRCOEM23BandSet cmuHFRCOEM23Freq_1M0Hz] @
     initIADC_calls k @ initLDMA_calls @
     [IADC_command IADC0 iadcCmdEnableTimer]"

text \<open>The values of a press and release of PB0, as the two loops of main read them:
  not pressed any number of times, pressed (0), pressed any number of times, not
  pressed.\<close>

definition press_release :: "32 word list \<Rightarrow> bool" where
  "press_release vs \<longleftrightarrow>
     (\<exists>up dn v. vs = up @ 0 # dn @ [v] \<and>
        (\<forall>x\<in>set up. x \<noteq> 0) \<and> (\<forall>x\<in>set dn. x = 0) \<and> v \<noteq> 0)"

text \<open>The three calls of LDMA_IRQHandler, and the operations of a run of main that
  reaches EM2.\<close>

definition handler_calls :: "event list" where
  "handler_calls =
     [LDMA_IntClear LDMA_IF_DONE0,
      IADC_command IADC0 iadcCmdStopSingle,
      GPIO_PinOutSet gpioPortB 1]"

definition main_operations :: "sdk \<Rightarrow> event list" where
  "main_operations k =
     main_prologue @ main_setup k @ HF_writes @ LF_writes @ EM2_entry cmuSelect_LFRCO False"

section \<open>Runs with the interrupt\<close>

text \<open>
  Nothing in the program masks the LDMA interrupt, so LDMA_IRQHandler can run between any
  two steps of main: between two calls, between two polls of a loop, while the processor
  sleeps in EMU_EnterEM2, and in the final loop. The handler adds its three calls to the
  trace and changes nothing else (\<open>LDMA_IRQHandler_eq\<close> below), and main reads
  nothing but the values that the hardware gives it; so the events of main in a run with
  interrupts are those of \<open>main\<close> on the same reads, in the same order, and a run is
  those events, one at a time, with runs of the handler put in between.

  A state of such a run: the trace so far (\<open>so_far\<close>), the events that main has still
  to do (\<open>to_do\<close>), whether main ends, after those, in EMU_EnterEM2 rather than in a
  poll for which no read is left (\<open>sleeps\<close>), and whether main is in its final loop
  (\<open>looping\<close>). One step takes as input whether the interrupt is served now. If it
  is, the handler runs; served while the processor sleeps in EMU_EnterEM2 it wakes the
  processor, EMU_EnterEM2 and em_EM2_RTCC return, and main is in its final loop. If it
  is not, main does its next event, if it has one. An interrupt served before main has
  called EMU_EnterEM2 wakes nothing: main then sleeps in EM2 until another one.
\<close>

record run_state =
  so_far :: "event list"
  to_do :: "event list"
  sleeps :: bool
  looping :: bool

definition main_events :: "sdk \<Rightarrow> 32 word list \<Rightarrow> event list" where
  "main_events k rs = trace (final (main k (cpu (power_on rs))))"

definition launch :: "sdk \<Rightarrow> 32 word list \<Rightarrow> run_state" where
  "launch k rs =
     \<lparr>so_far = [], to_do = main_events k rs,
      sleeps = returned (main k (cpu (power_on rs))), looping = False\<rparr>"

definition step :: "bool \<Rightarrow> run_state \<Rightarrow> run_state" where
  "step irq r =
     (if irq then
        r\<lparr>so_far := so_far r @ handler_calls,
          looping := looping r \<or> (to_do r = [] \<and> sleeps r)\<rparr>
      else
        (case to_do r of
           [] \<Rightarrow> r
         | e # es \<Rightarrow> r\<lparr>so_far := so_far r @ [e], to_do := es\<rparr>))"

fun run :: "bool list \<Rightarrow> run_state \<Rightarrow> run_state" where
  "run [] r = r"
| "run (irq # irqs) r = run irqs (step irq r)"


text \<open>The part of a trace that is main's own: the trace without the calls of the
  handler. A read of PB0.\<close>

definition own :: "event list \<Rightarrow> event list" where
  "own tr = filter (\<lambda>e. e \<notin> set handler_calls) tr"





text \<open>
  What holds of every state of a run from reset: main's own events so far, followed by
  those still to do, are the events of main, and in the final loop main has nothing left
  to do and the trace ends with a run of the handler.
\<close>

definition on_track :: "sdk \<Rightarrow> 32 word list \<Rightarrow> run_state \<Rightarrow> bool" where
  "on_track k rs r \<longleftrightarrow>
     own (so_far r) @ to_do r = main_events k rs \<and>
     sleeps r = returned (main k (cpu (power_on rs))) \<and>
     (looping r \<longrightarrow> to_do r = [] \<and> sleeps r \<and> (\<exists>pre. so_far r = pre @ handler_calls))"

section \<open>A concrete device\<close>

text \<open>
  Values for the parameters and for the reads, used to evaluate the program in closed
  examples: both status masks are bit 16; PB0 reads not pressed, pressed, pressed, not
  pressed; HFRCO0->STATUS first has the masked bit set, then it and HFXO0->STATUS are 0;
  LFRCO->STATUS reads 5 and LFXO->STATUS reads 0.
\<close>

definition example_sdk :: sdk where
  "example_sdk =
     \<lparr>IADC_calcSrcClkPrescale = (\<lambda>i f c. 0),
      IADC_calcAdcClkPrescale = (\<lambda>i f c m p. 0),
      HFRCO_STATUS_ENS_MASK = 0x10000,
      HFXO_STATUS_ENS_MASK = 0x10000\<rparr>"

definition example_reads :: "32 word list" where
  "example_reads = [1, 0, 0, 1, 0x10000, 0, 0, 5, 0]"



section \<open>The polling loops\<close>

lemma status_polls_refl: "status_polls s s"
  by (simp add: status_polls_def)

lemma status_polls_step:
  assumes "status_polls (s\<lparr>trace := trace s @ [Reg_read (STATUS p) v], hw_reads := vs\<rparr>) s'"
  shows "status_polls s s'"
proof -
  from assms obtain d where d: "trace s' = (trace s @ [Reg_read (STATUS p) v]) @ d"
      "list_all is_status_read d" "descriptor s' = descriptor s" "singleBuffer s' = singleBuffer s"
    by (auto simp: status_polls_def)
  have "trace s' = trace s @ (Reg_read (STATUS p) v # d)" using d(1) by simp
  moreover have "list_all is_status_read (Reg_read (STATUS p) v # d)" using d(2) by simp
  ultimately show ?thesis using d(3,4) unfolding status_polls_def by blast
qed

lemma disableHFClocks_wait_polls: "status_polls s (final (disableHFClocks_wait k s))"
proof (induction k s rule: disableHFClocks_wait.induct)
  case (1 k s)
  show ?case
  proof (cases "hw_reads s")
    case Nil
    then show ?thesis by (simp add: read_hw_def status_polls_refl)
  next
    case (Cons a r1)
    let ?s1 = "s\<lparr>trace := trace s @ [Reg_read (STATUS HFRCO0) a], hw_reads := r1\<rparr>"
    have r: "read_hw (Reg_read (STATUS HFRCO0)) s = Some (a, ?s1)"
      using Cons by (simp add: read_hw_def)
    show ?thesis
    proof (cases "a AND HFRCO_STATUS_ENS_MASK k \<noteq> 0")
      case True
      then have "status_polls ?s1 (final (disableHFClocks_wait k ?s1))"
        using "1.IH"(1) [OF r refl] by simp
      moreover have "disableHFClocks_wait k s = disableHFClocks_wait k ?s1"
        using r True by simp
      ultimately show ?thesis by (simp add: status_polls_step del: disableHFClocks_wait.simps)
    next
      case False
      show ?thesis
      proof (cases r1)
        case Nil
        then have "disableHFClocks_wait k s = Polling ?s1"
          using r False by (simp add: read_hw_def)
        then show ?thesis
          by (simp add: status_polls_step [OF status_polls_refl] del: disableHFClocks_wait.simps)
      next
        case (Cons b r2)
        let ?s2 = "?s1\<lparr>trace := trace ?s1 @ [Reg_read (STATUS HFXO0) b], hw_reads := r2\<rparr>"
        have r': "read_hw (Reg_read (STATUS HFXO0)) ?s1 = Some (b, ?s2)"
          using Cons by (simp add: read_hw_def)
        show ?thesis
        proof (cases "b AND HFXO_STATUS_ENS_MASK k \<noteq> 0")
          case True
          have "status_polls ?s2 (final (disableHFClocks_wait k ?s2))"
            using "1.IH"(2) [OF r refl False r' refl True] by simp
          then have "status_polls ?s1 (final (disableHFClocks_wait k ?s2))"
            by (rule status_polls_step)
          then have "status_polls s (final (disableHFClocks_wait k ?s2))"
            by (rule status_polls_step)
          moreover have "disableHFClocks_wait k s = disableHFClocks_wait k ?s2"
            using r False r' True by simp
          ultimately show ?thesis by (simp del: disableHFClocks_wait.simps)
        next
          case b0: False
          have "disableHFClocks_wait k s = Returned ?s2"
            using r False r' b0 by simp
          moreover have "status_polls s ?s2"
            by (rule status_polls_step, rule status_polls_step, rule status_polls_refl)
          ultimately show ?thesis by (simp del: disableHFClocks_wait.simps)
        qed
      qed
    qed
  qed
qed


lemma status_polls_trans:
  assumes "status_polls s s'" "status_polls s' s''"
  shows "status_polls s s''"
proof -
  from assms(1) obtain d where d: "trace s' = trace s @ d" "list_all is_status_read d"
    by (auto simp: status_polls_def)
  from assms(2) obtain e where e: "trace s'' = trace s' @ e" "list_all is_status_read e"
    by (auto simp: status_polls_def)
  have "trace s'' = trace s @ (d @ e)" "list_all is_status_read (d @ e)"
    using d e by simp_all
  then have "\<exists>x. trace s'' = trace s @ x \<and> list_all is_status_read x" by blast
  then show ?thesis using assms by (simp add: status_polls_def)
qed

lemma disableLFClocks_wait_polls: "status_polls s (final (disableLFClocks_wait s))"
proof (induction s rule: disableLFClocks_wait.induct)
  case (1 s)
  show ?case
  proof (cases "hw_reads s")
    case Nil
    then show ?thesis by (simp add: read_hw_def status_polls_refl)
  next
    case (Cons a r1)
    let ?s1 = "s\<lparr>trace := trace s @ [Reg_read (STATUS LFRCO) a], hw_reads := r1\<rparr>"
    have r: "read_hw (Reg_read (STATUS LFRCO)) s = Some (a, ?s1)"
      using Cons by (simp add: read_hw_def)
    have s1: "status_polls s ?s1"
      by (rule status_polls_step, rule status_polls_refl)
    show ?thesis
    proof (cases "a \<noteq> 0")
      case False
      then have "disableLFClocks_wait s = Returned ?s1" using r by simp
      then show ?thesis using s1 by (simp del: disableLFClocks_wait.simps)
    next
      case True
      show ?thesis
      proof (cases r1)
        case Nil
        then have "disableLFClocks_wait s = Polling ?s1"
          using r True by (simp add: read_hw_def)
        then show ?thesis using s1 by (simp del: disableLFClocks_wait.simps)
      next
        case (Cons b r2)
        let ?s2 = "?s1\<lparr>trace := trace ?s1 @ [Reg_read (STATUS LFXO) b], hw_reads := r2\<rparr>"
        have r': "read_hw (Reg_read (STATUS LFXO)) ?s1 = Some (b, ?s2)"
          using Cons by (simp add: read_hw_def)
        have s2: "status_polls s ?s2"
          by (rule status_polls_step, rule status_polls_step, rule status_polls_refl)
        show ?thesis
        proof (cases "b \<noteq> 0")
          case b1: True
          have "status_polls ?s2 (final (disableLFClocks_wait ?s2))"
            using "1.IH" [OF r refl True r' refl b1] by simp
          with s2 have "status_polls s (final (disableLFClocks_wait ?s2))"
            by (rule status_polls_trans)
          moreover have "disableLFClocks_wait s = disableLFClocks_wait ?s2"
            using r True r' b1 by simp
          ultimately show ?thesis by (simp del: disableLFClocks_wait.simps)
        next
          case b0: False
          have "disableLFClocks_wait s = Returned ?s2"
            using r True r' b0 by simp
          then show ?thesis using s2 by (simp del: disableLFClocks_wait.simps)
        qed
      qed
    qed
  qed
qed

lemma LF_exit_step: "LF_exit tr \<Longrightarrow> LF_exit (e # tr)"
  unfolding LF_exit_def
  by (metis append_Cons)

lemma disableLFClocks_wait_exit:
  "disableLFClocks_wait s = Returned s' \<Longrightarrow> \<exists>d. trace s' = trace s @ d \<and> LF_exit d"
proof (induction s rule: disableLFClocks_wait.induct)
  case (1 s)
  show ?case
  proof (cases "hw_reads s")
    case Nil
    then show ?thesis using "1.prems" by (simp add: read_hw_def)
  next
    case (Cons a r1)
    let ?s1 = "s\<lparr>trace := trace s @ [Reg_read (STATUS LFRCO) a], hw_reads := r1\<rparr>"
    have r: "read_hw (Reg_read (STATUS LFRCO)) s = Some (a, ?s1)"
      using Cons by (simp add: read_hw_def)
    show ?thesis
    proof (cases "a \<noteq> 0")
      case False
      then have "s' = ?s1" using r "1.prems" by simp
      moreover have "LF_exit [Reg_read (STATUS LFRCO) 0]" by (simp add: LF_exit_def)
      ultimately show ?thesis using False by auto
    next
      case True
      show ?thesis
      proof (cases r1)
        case Nil
        then show ?thesis using r True "1.prems" by (simp add: read_hw_def)
      next
        case (Cons b r2)
        let ?s2 = "?s1\<lparr>trace := trace ?s1 @ [Reg_read (STATUS LFXO) b], hw_reads := r2\<rparr>"
        have r': "read_hw (Reg_read (STATUS LFXO)) ?s1 = Some (b, ?s2)"
          using Cons by (simp add: read_hw_def)
        show ?thesis
        proof (cases "b \<noteq> 0")
          case b1: True
          have "disableLFClocks_wait ?s2 = Returned s'"
            using r True r' b1 "1.prems" by simp
          from "1.IH" [OF r refl True r' refl b1 this]
          obtain d where d: "trace s' = trace ?s2 @ d" "LF_exit d" by blast
          have "trace s' = trace s @ (Reg_read (STATUS LFRCO) a # Reg_read (STATUS LFXO) b # d)"
            using d(1) by simp
          moreover have "LF_exit (Reg_read (STATUS LFRCO) a # Reg_read (STATUS LFXO) b # d)"
            using d(2) by (intro LF_exit_step)
          ultimately show ?thesis by blast
        next
          case b0: False
          have "s' = ?s2" using r True r' b0 "1.prems" by simp
          moreover have "LF_exit [Reg_read (STATUS LFRCO) a, Reg_read (STATUS LFXO) 0]"
            using True unfolding LF_exit_def by blast
          ultimately show ?thesis using b0 by auto
        qed
      qed
    qed
  qed
qed

lemma disableHFClocks_wait_starved:
  "disableHFClocks_wait k s = Polling s' \<Longrightarrow> hw_reads s' = []"
proof (induction k s rule: disableHFClocks_wait.induct)
  case (1 k s)
  show ?case
  proof (cases "hw_reads s")
    case Nil
    then show ?thesis using "1.prems" by (auto simp: read_hw_def)
  next
    case (Cons a r1)
    let ?s1 = "s\<lparr>trace := trace s @ [Reg_read (STATUS HFRCO0) a], hw_reads := r1\<rparr>"
    have r: "read_hw (Reg_read (STATUS HFRCO0)) s = Some (a, ?s1)"
      using Cons by (simp add: read_hw_def)
    show ?thesis
    proof (cases "a AND HFRCO_STATUS_ENS_MASK k \<noteq> 0")
      case True
      then have "disableHFClocks_wait k ?s1 = Polling s'"
        using r "1.prems" by simp
      from "1.IH"(1) [OF r refl True this] show ?thesis .
    next
      case False
      show ?thesis
      proof (cases r1)
        case Nil
        then have "s' = ?s1" using r False "1.prems" by (simp add: read_hw_def)
        then show ?thesis using Nil by simp
      next
        case (Cons b r2)
        let ?s2 = "?s1\<lparr>trace := trace ?s1 @ [Reg_read (STATUS HFXO0) b], hw_reads := r2\<rparr>"
        have r': "read_hw (Reg_read (STATUS HFXO0)) ?s1 = Some (b, ?s2)"
          using Cons by (simp add: read_hw_def)
        show ?thesis
        proof (cases "b AND HFXO_STATUS_ENS_MASK k \<noteq> 0")
          case True
          have "disableHFClocks_wait k ?s2 = Polling s'"
            using r False r' True "1.prems" by simp
          from "1.IH"(2) [OF r refl False r' refl True this] show ?thesis .
        next
          case b0: False
          then show ?thesis using r False r' "1.prems" by simp
        qed
      qed
    qed
  qed
qed

lemma disableLFClocks_wait_starved:
  "disableLFClocks_wait s = Polling s' \<Longrightarrow> hw_reads s' = []"
proof (induction s rule: disableLFClocks_wait.induct)
  case (1 s)
  show ?case
  proof (cases "hw_reads s")
    case Nil
    then show ?thesis using "1.prems" by (auto simp: read_hw_def)
  next
    case (Cons a r1)
    let ?s1 = "s\<lparr>trace := trace s @ [Reg_read (STATUS LFRCO) a], hw_reads := r1\<rparr>"
    have r: "read_hw (Reg_read (STATUS LFRCO)) s = Some (a, ?s1)"
      using Cons by (simp add: read_hw_def)
    show ?thesis
    proof (cases "a \<noteq> 0")
      case False
      then show ?thesis using r "1.prems" by simp
    next
      case True
      show ?thesis
      proof (cases r1)
        case Nil
        then have "s' = ?s1" using r True "1.prems" by (simp add: read_hw_def)
        then show ?thesis using Nil by simp
      next
        case (Cons b r2)
        let ?s2 = "?s1\<lparr>trace := trace ?s1 @ [Reg_read (STATUS LFXO) b], hw_reads := r2\<rparr>"
        have r': "read_hw (Reg_read (STATUS LFXO)) ?s1 = Some (b, ?s2)"
          using Cons by (simp add: read_hw_def)
        show ?thesis
        proof (cases "b \<noteq> 0")
          case b1: True
          have "disableLFClocks_wait ?s2 = Polling s'"
            using r True r' b1 "1.prems" by simp
          from "1.IH" [OF r refl True r' refl b1 this] show ?thesis .
        next
          case b0: False
          then show ?thesis using r True r' "1.prems" by simp
        qed
      qed
    qed
  qed
qed

section \<open>The two loops on PB0\<close>

lemma main_wait_pressed_polling:
  "\<forall>v\<in>set (hw_reads s). v \<noteq> 0 \<Longrightarrow>
   main_wait_pressed s =
     Polling (s\<lparr>trace := trace s @ map (GPIO_PinInGet gpioPortD 2) (hw_reads s), hw_reads := []\<rparr>)"
proof (induction "hw_reads s" arbitrary: s)
  case Nil
  then show ?case by (simp add: read_hw_def)
next
  case (Cons v vs)
  from Cons.hyps(2) [symmetric] Cons.prems have v: "v \<noteq> 0" by simp
  let ?s' = "s\<lparr>trace := trace s @ [GPIO_PinInGet gpioPortD 2 v], hw_reads := vs\<rparr>"
  have "main_wait_pressed s = main_wait_pressed ?s'"
    using Cons.hyps(2) [symmetric] v by (simp add: read_hw_def PB_PRESSED_def)
  also have "\<dots> = Polling (?s'\<lparr>trace := trace ?s' @ map (GPIO_PinInGet gpioPortD 2) (hw_reads ?s'), hw_reads := []\<rparr>)"
    using Cons.prems Cons.hyps(2) [symmetric] by (intro Cons.hyps(1)) auto
  finally show ?case using Cons.hyps(2) [symmetric] by simp
qed

lemma main_wait_pressed_returns:
  "hw_reads s = up @ 0 # rest \<Longrightarrow> \<forall>v\<in>set up. v \<noteq> 0 \<Longrightarrow>
   main_wait_pressed s =
     Returned (s\<lparr>trace := trace s @ map (GPIO_PinInGet gpioPortD 2) (up @ [0]), hw_reads := rest\<rparr>)"
proof (induction up arbitrary: s)
  case Nil
  then show ?case by (simp add: read_hw_def PB_PRESSED_def)
next
  case (Cons v up)
  let ?s' = "s\<lparr>trace := trace s @ [GPIO_PinInGet gpioPortD 2 v], hw_reads := up @ 0 # rest\<rparr>"
  have "main_wait_pressed s = main_wait_pressed ?s'"
    using Cons.prems by (simp add: read_hw_def PB_PRESSED_def)
  also have "\<dots> = Returned (?s'\<lparr>trace := trace ?s' @ map (GPIO_PinInGet gpioPortD 2) (up @ [0]), hw_reads := rest\<rparr>)"
    using Cons.prems by (intro Cons.IH) auto
  finally show ?case by simp
qed

lemma main_wait_released_polling:
  "\<forall>v\<in>set (hw_reads s). v = 0 \<Longrightarrow>
   main_wait_released s =
     Polling (s\<lparr>trace := trace s @ map (GPIO_PinInGet gpioPortD 2) (hw_reads s), hw_reads := []\<rparr>)"
proof (induction "hw_reads s" arbitrary: s)
  case Nil
  then show ?case by (simp add: read_hw_def)
next
  case (Cons v vs)
  from Cons.hyps(2) [symmetric] Cons.prems have v: "v = 0" by simp
  let ?s' = "s\<lparr>trace := trace s @ [GPIO_PinInGet gpioPortD 2 v], hw_reads := vs\<rparr>"
  have "main_wait_released s = main_wait_released ?s'"
    using Cons.hyps(2) [symmetric] v by (simp add: read_hw_def PB_PRESSED_def)
  also have "\<dots> = Polling (?s'\<lparr>trace := trace ?s' @ map (GPIO_PinInGet gpioPortD 2) (hw_reads ?s'), hw_reads := []\<rparr>)"
    using Cons.prems Cons.hyps(2) [symmetric] by (intro Cons.hyps(1)) auto
  finally show ?case using Cons.hyps(2) [symmetric] by simp
qed

lemma main_wait_released_returns:
  "hw_reads s = dn @ v # rest \<Longrightarrow> \<forall>x\<in>set dn. x = 0 \<Longrightarrow> v \<noteq> 0 \<Longrightarrow>
   main_wait_released s =
     Returned (s\<lparr>trace := trace s @ map (GPIO_PinInGet gpioPortD 2) (dn @ [v]), hw_reads := rest\<rparr>)"
proof (induction dn arbitrary: s)
  case Nil
  then show ?case by (simp add: read_hw_def PB_PRESSED_def)
next
  case (Cons x dn)
  let ?s' = "s\<lparr>trace := trace s @ [GPIO_PinInGet gpioPortD 2 x], hw_reads := dn @ v # rest\<rparr>"
  have "main_wait_released s = main_wait_released ?s'"
    using Cons.prems by (simp add: read_hw_def PB_PRESSED_def)
  also have "\<dots> = Returned (?s'\<lparr>trace := trace ?s' @ map (GPIO_PinInGet gpioPortD 2) (dn @ [v]), hw_reads := rest\<rparr>)"
    using Cons.prems by (intro Cons.IH) auto
  finally show ?case by simp
qed

text \<open>A list of reads of PB0 has no press, or a press and no release after it, or a
  press and a release.\<close>

lemma press_release_cases:
  fixes vs :: "32 word list"
  obtains (no_press) "\<forall>v\<in>set vs. v \<noteq> 0"
  | (no_release) up dn where "vs = up @ 0 # dn" "\<forall>v\<in>set up. v \<noteq> 0" "\<forall>v\<in>set dn. v = 0"
  | (both) up dn v rest where "vs = up @ 0 # dn @ v # rest" "\<forall>v\<in>set up. v \<noteq> 0"
      "\<forall>v\<in>set dn. v = 0" "v \<noteq> 0"
proof (cases "\<forall>v\<in>set vs. v \<noteq> 0")
  case True
  then show ?thesis by (rule no_press)
next
  case False
  then have "\<exists>x\<in>set vs. x = 0" by blast
  from split_list_first_prop [OF this]
  obtain up x r where "vs = up @ x # r" "x = 0" "\<forall>v\<in>set up. v \<noteq> 0"
    by blast
  then have vs: "vs = up @ 0 # r" and up: "\<forall>v\<in>set up. v \<noteq> 0"
    by simp_all
  show ?thesis
  proof (cases "\<forall>v\<in>set r. v = 0")
    case True
    with vs up show ?thesis by (intro no_release)
  next
    case False
    then have "\<exists>x\<in>set r. x \<noteq> 0" by blast
    from split_list_first_prop [OF this]
    obtain dn v rest where r: "r = dn @ v # rest" and v: "v \<noteq> 0"
        and dn: "\<forall>x\<in>set dn. \<not> x \<noteq> 0"
      by blast
    from dn have "\<forall>x\<in>set dn. x = 0" by simp
    with vs up r v show ?thesis by (intro both) auto
  qed
qed

section \<open>The structure of main and of em_EM2_RTCC\<close>

lemma seq_single: "seq [f] s = f s"
  by (cases "f s") simp_all

lemma seq_stmt: "seq (stmt f # fs) s = seq fs (f s)"
  by (simp add: stmt_def)

lemma seq_step:
  "seq (f # g # fs) s = (case f s of Returned s' \<Rightarrow> seq (g # fs) s' | Polling s' \<Rightarrow> Polling s')"
  by simp

lemma disableHFClocks_unfold:
  "disableHFClocks k s = disableHFClocks_wait k (s\<lparr>trace := trace s @ HF_writes\<rparr>)"
  by (simp add: disableHFClocks_def seq_stmt seq_single call_def HF_writes_def
      del: disableHFClocks_wait.simps seq.simps)

lemma disableLFClocks_unfold:
  "disableLFClocks s = disableLFClocks_wait (s\<lparr>trace := trace s @ LF_writes\<rparr>)"
  by (simp add: disableLFClocks_def seq_stmt seq_single call_def LF_writes_def
      del: disableLFClocks_wait.simps seq.simps)

lemma em_EM2_RTCC_unfold:
  "em_EM2_RTCC k osc pd s =
     (case disableHFClocks k s of
        Polling s1 \<Rightarrow> Polling s1
      | Returned s1 \<Rightarrow>
          (case disableLFClocks s1 of
             Polling s2 \<Rightarrow> Polling s2
           | Returned s2 \<Rightarrow> Returned (s2\<lparr>trace := trace s2 @ EM2_entry osc pd\<rparr>)))"
  by (simp add: em_EM2_RTCC_def disableClocks_def seq_step seq_stmt seq_single call_def
      EM2_entry_def RTCC_INIT_DEFAULT_def stmt_def del: seq.simps split: outcome.splits)

text \<open>
  initIADC and initLDMA in one step each. Called as main calls it, initLDMA leaves in
  the global descriptor, and hands to LDMA_StartTransfer, the value built by
  LDMA_DESCRIPTOR_LINKREL_P2M_BYTE from the address of IADC0->SINGLEFIFODATA, the
  address of singleBuffer, the count 1024 and the link jump 1, with the size set to a
  word, decLoopCnt to 1, xferCnt to NUM_SAMPLES, doneIfs to 1 and ignoreSrec to 0. What
  the LDMA does with that descriptor is not the program's to say.
\<close>

lemma initIADC_eq: "initIADC k s = s\<lparr>trace := trace s @ initIADC_calls k\<rparr>"
  by (simp add: initIADC_def initIADC_calls_def call_def Let_def IADC_INIT_DEFAULT_def
      IADC_ALLCONFIGS_DEFAULT_def IADC_INITSINGLE_DEFAULT_def IADC_SINGLEINPUT_DEFAULT_def
      CLK_SRC_ADC_FREQ_def CLK_ADC_FREQ_def TIMER_CYCLES_def)

lemma initLDMA_eq:
  "initLDMA addr_singleBuffer (of_nat NUM_SAMPLES) s =
     s\<lparr>trace := trace s @ initLDMA_calls, descriptor := started_descriptor\<rparr>"
  by (simp add: initLDMA_def initLDMA_calls_def call_def Let_def started_descriptor_def
      LDMA_DESCRIPTOR_LINKREL_P2M_BYTE_def NUM_SAMPLES_def)

lemma main_unfold:
  "main k s =
     (case main_wait_pressed (s\<lparr>trace := trace s @ main_prologue\<rparr>) of
        Polling s1 \<Rightarrow> Polling s1
      | Returned s1 \<Rightarrow>
          (case main_wait_released s1 of
             Polling s2 \<Rightarrow> Polling s2
           | Returned s2 \<Rightarrow>
               em_EM2_RTCC k cmuSelect_LFRCO False
                 (s2\<lparr>trace := trace s2 @ main_setup k, descriptor := started_descriptor\<rparr>)))"
proof -
  let ?s0 = "s\<lparr>trace := trace s @ main_prologue\<rparr>"
  have start: "main k s =
      seq [main_wait_pressed,
           main_wait_released,
           stmt (call (GPIO_PinModeSet gpioPortD 2 gpioModeDisabled 1)),
           stmt (call (GPIO_PinModeSet gpioPortB 1 gpioModePushPull 0)),
           stmt (call (EMU_EM23Init EMU_EM23INIT_DEFAULT)),
           stmt (call (CMU_HFXOInit CMU_HFXOINIT_WSTK_DEFAULT)),
           stmt (call (CMU_HFRCOEM23BandSet HFRCOEM23_FREQ)),
           stmt (initIADC k),
           stmt (initLDMA addr_singleBuffer (of_nat NUM_SAMPLES)),
           stmt (call (IADC_command IADC0 iadcCmdEnableTimer)),
           em_EM2_RTCC k cmuSelect_LFRCO False] ?s0"
    unfolding main_def by (simp only: seq_stmt) (simp add: call_def main_prologue_def)
  have rest: "seq [stmt (call (GPIO_PinModeSet gpioPortD 2 gpioModeDisabled 1)),
           stmt (call (GPIO_PinModeSet gpioPortB 1 gpioModePushPull 0)),
           stmt (call (EMU_EM23Init EMU_EM23INIT_DEFAULT)),
           stmt (call (CMU_HFXOInit CMU_HFXOINIT_WSTK_DEFAULT)),
           stmt (call (CMU_HFRCOEM23BandSet HFRCOEM23_FREQ)),
           stmt (initIADC k),
           stmt (initLDMA addr_singleBuffer (of_nat NUM_SAMPLES)),
           stmt (call (IADC_command IADC0 iadcCmdEnableTimer)),
           em_EM2_RTCC k cmuSelect_LFRCO False] s2 =
         em_EM2_RTCC k cmuSelect_LFRCO False
           (s2\<lparr>trace := trace s2 @ main_setup k, descriptor := started_descriptor\<rparr>)" for s2
    by (simp only: seq_stmt seq_single,
        rule arg_cong [where f = "em_EM2_RTCC k cmuSelect_LFRCO False"],
        rule state.equality)
       (simp_all add: initIADC_eq initLDMA_eq call_def main_setup_def HFRCOEM23_FREQ_def)
  note p = seq.simps(2) [of main_wait_pressed]
  note r = seq.simps(2) [of main_wait_released]
  show ?thesis
  proof (cases "main_wait_pressed ?s0")
    case (Polling s1)
    then show ?thesis by (simp only: start p outcome.case)
  next
    case (Returned s1)
    show ?thesis
    proof (cases "main_wait_released s1")
      case (Polling s2)
      with Returned show ?thesis by (simp only: start p r outcome.case)
    next
      case R: (Returned s2)
      with Returned show ?thesis by (simp only: start p r outcome.case rest)
    qed
  qed
qed

lemma main_no_press:
  assumes "\<forall>v\<in>set (hw_reads s). v \<noteq> 0"
  shows "main k s =
     Polling (s\<lparr>trace := trace s @ main_prologue @ map (GPIO_PinInGet gpioPortD 2) (hw_reads s),
               hw_reads := []\<rparr>)"
proof -
  let ?s0 = "s\<lparr>trace := trace s @ main_prologue\<rparr>"
  have "\<forall>v\<in>set (hw_reads ?s0). v \<noteq> 0" using assms by simp
  from main_wait_pressed_polling [OF this] show ?thesis
    by (simp add: main_unfold del: main_wait_pressed.simps)
qed

lemma main_no_release:
  assumes "hw_reads s = up @ 0 # dn" "\<forall>v\<in>set up. v \<noteq> 0" "\<forall>v\<in>set dn. v = 0"
  shows "main k s =
     Polling (s\<lparr>trace := trace s @ main_prologue @ map (GPIO_PinInGet gpioPortD 2) (hw_reads s),
               hw_reads := []\<rparr>)"
proof -
  let ?s0 = "s\<lparr>trace := trace s @ main_prologue\<rparr>"
  let ?s1 = "?s0\<lparr>trace := trace ?s0 @ map (GPIO_PinInGet gpioPortD 2) (up @ [0]), hw_reads := dn\<rparr>"
  have "hw_reads ?s0 = up @ 0 # dn" using assms(1) by simp
  from main_wait_pressed_returns [OF this assms(2)]
  have p: "main_wait_pressed ?s0 = Returned ?s1" .
  have "\<forall>v\<in>set (hw_reads ?s1). v = 0" using assms(3) by simp
  from main_wait_released_polling [OF this] p show ?thesis
    by (simp add: main_unfold assms(1) del: main_wait_pressed.simps main_wait_released.simps)
qed

lemma main_press_release:
  assumes "hw_reads s = up @ 0 # dn @ v # rest" "\<forall>v\<in>set up. v \<noteq> 0" "\<forall>v\<in>set dn. v = 0"
    "v \<noteq> 0"
  shows "main k s =
     em_EM2_RTCC k cmuSelect_LFRCO False
       (s\<lparr>trace := trace s @ main_prologue @
                     map (GPIO_PinInGet gpioPortD 2) (up @ 0 # dn @ [v]) @ main_setup k,
          hw_reads := rest, descriptor := started_descriptor\<rparr>)"
proof -
  let ?s0 = "s\<lparr>trace := trace s @ main_prologue\<rparr>"
  let ?s1 = "?s0\<lparr>trace := trace ?s0 @ map (GPIO_PinInGet gpioPortD 2) (up @ [0]),
                 hw_reads := dn @ v # rest\<rparr>"
  let ?s2 = "?s1\<lparr>trace := trace ?s1 @ map (GPIO_PinInGet gpioPortD 2) (dn @ [v]),
                 hw_reads := rest\<rparr>"
  have "hw_reads ?s0 = up @ 0 # (dn @ v # rest)" using assms(1) by simp
  from main_wait_pressed_returns [OF this assms(2)]
  have p: "main_wait_pressed ?s0 = Returned ?s1" .
  have "hw_reads ?s1 = dn @ v # rest" by simp
  from main_wait_released_returns [OF this assms(3,4)]
  have r: "main_wait_released ?s1 = Returned ?s2" .
  have "main k s =
      em_EM2_RTCC k cmuSelect_LFRCO False
        (?s2\<lparr>trace := trace ?s2 @ main_setup k, descriptor := started_descriptor\<rparr>)"
    by (simp only: main_unfold p r outcome.case)
  also have "?s2\<lparr>trace := trace ?s2 @ main_setup k, descriptor := started_descriptor\<rparr> =
      s\<lparr>trace := trace s @ main_prologue @
                     map (GPIO_PinInGet gpioPortD 2) (up @ 0 # dn @ [v]) @ main_setup k,
          hw_reads := rest, descriptor := started_descriptor\<rparr>"
    by (rule state.equality) simp_all
  finally show ?thesis .
qed

lemma em_EM2_RTCC_cases:
  obtains
    (hf) s' d1 where "em_EM2_RTCC k osc pd s = Polling s'"
      "trace s' = trace s @ HF_writes @ d1" "list_all is_status_read d1"
      "descriptor s' = descriptor s" "singleBuffer s' = singleBuffer s" "hw_reads s' = []"
  | (lf) s' d1 d2 where "em_EM2_RTCC k osc pd s = Polling s'"
      "trace s' = trace s @ HF_writes @ d1 @ LF_writes @ d2"
      "list_all is_status_read d1" "list_all is_status_read d2"
      "descriptor s' = descriptor s" "singleBuffer s' = singleBuffer s" "hw_reads s' = []"
  | (ret) s' d1 d2 where "em_EM2_RTCC k osc pd s = Returned s'"
      "trace s' = trace s @ HF_writes @ d1 @ LF_writes @ d2 @ EM2_entry osc pd"
      "list_all is_status_read d1" "list_all is_status_read d2"
      "descriptor s' = descriptor s" "singleBuffer s' = singleBuffer s"
proof -
  let ?s0 = "s\<lparr>trace := trace s @ HF_writes\<rparr>"
  have hfp: "status_polls ?s0 (final (disableHFClocks_wait k ?s0))"
    by (rule disableHFClocks_wait_polls)
  show thesis
  proof (cases "disableHFClocks_wait k ?s0")
    case (Polling s1)
    with hfp obtain d1 where "trace s1 = trace s @ HF_writes @ d1" "list_all is_status_read d1"
        "descriptor s1 = descriptor s" "singleBuffer s1 = singleBuffer s"
      by (auto simp: status_polls_def)
    moreover have "em_EM2_RTCC k osc pd s = Polling s1"
      using Polling by (simp add: em_EM2_RTCC_unfold disableHFClocks_unfold
          del: disableHFClocks_wait.simps)
    moreover have "hw_reads s1 = []" using Polling by (rule disableHFClocks_wait_starved)
    ultimately show ?thesis by (intro hf)
  next
    case (Returned s1)
    with hfp obtain d1 where d1: "trace s1 = trace s @ HF_writes @ d1" "list_all is_status_read d1"
        "descriptor s1 = descriptor s" "singleBuffer s1 = singleBuffer s"
      by (auto simp: status_polls_def)
    let ?s1 = "s1\<lparr>trace := trace s1 @ LF_writes\<rparr>"
    have lfp: "status_polls ?s1 (final (disableLFClocks_wait ?s1))"
      by (rule disableLFClocks_wait_polls)
    show ?thesis
    proof (cases "disableLFClocks_wait ?s1")
      case (Polling s2)
      with lfp d1 obtain d2 where "trace s2 = trace s @ HF_writes @ d1 @ LF_writes @ d2"
          "list_all is_status_read d2" "descriptor s2 = descriptor s"
          "singleBuffer s2 = singleBuffer s"
        by (auto simp: status_polls_def)
      moreover have "em_EM2_RTCC k osc pd s = Polling s2"
        using Polling Returned by (simp add: em_EM2_RTCC_unfold disableHFClocks_unfold
            disableLFClocks_unfold del: disableHFClocks_wait.simps disableLFClocks_wait.simps)
      moreover have "hw_reads s2 = []" using Polling by (rule disableLFClocks_wait_starved)
      ultimately show ?thesis using d1(2) by (intro lf)
    next
      case R2: (Returned s2)
      with lfp d1 obtain d2 where d2: "trace s2 = trace s @ HF_writes @ d1 @ LF_writes @ d2"
          "list_all is_status_read d2" "descriptor s2 = descriptor s"
          "singleBuffer s2 = singleBuffer s"
        by (auto simp: status_polls_def)
      let ?s3 = "s2\<lparr>trace := trace s2 @ EM2_entry osc pd\<rparr>"
      have "em_EM2_RTCC k osc pd s = Returned ?s3"
        using R2 Returned by (simp add: em_EM2_RTCC_unfold disableHFClocks_unfold
            disableLFClocks_unfold del: disableHFClocks_wait.simps disableLFClocks_wait.simps)
      moreover have "trace ?s3 = trace s @ HF_writes @ d1 @ LF_writes @ d2 @ EM2_entry osc pd"
        using d2(1) by simp
      moreover have "descriptor ?s3 = descriptor s" "singleBuffer ?s3 = singleBuffer s"
        using d2(3,4) by simp_all
      ultimately show ?thesis using d1(2) d2(2) by (intro ret)
    qed
  qed
qed

lemma main_cases [case_names button hf lf sleeping]:
  obtains
    (button) "main k s =
        Polling (s\<lparr>trace := trace s @ main_prologue @
                      map (GPIO_PinInGet gpioPortD 2) (hw_reads s), hw_reads := []\<rparr>)"
  | (hf) vs rest s' d1 where "hw_reads s = vs @ rest" "press_release vs"
      "main k s = Polling s'"
      "trace s' = trace s @ main_prologue @ map (GPIO_PinInGet gpioPortD 2) vs @
                  main_setup k @ HF_writes @ d1"
      "list_all is_status_read d1"
      "descriptor s' = started_descriptor" "singleBuffer s' = singleBuffer s"
      "hw_reads s' = []"
  | (lf) vs rest s' d1 d2 where "hw_reads s = vs @ rest" "press_release vs"
      "main k s = Polling s'"
      "trace s' = trace s @ main_prologue @ map (GPIO_PinInGet gpioPortD 2) vs @
                  main_setup k @ HF_writes @ d1 @ LF_writes @ d2"
      "list_all is_status_read d1" "list_all is_status_read d2"
      "descriptor s' = started_descriptor" "singleBuffer s' = singleBuffer s"
      "hw_reads s' = []"
  | (sleeping) vs rest s' d1 d2 where "hw_reads s = vs @ rest" "press_release vs"
      "main k s = Returned s'"
      "trace s' = trace s @ main_prologue @ map (GPIO_PinInGet gpioPortD 2) vs @
                  main_setup k @ HF_writes @ d1 @ LF_writes @ d2 @
                  EM2_entry cmuSelect_LFRCO False"
      "list_all is_status_read d1" "list_all is_status_read d2"
      "descriptor s' = started_descriptor" "singleBuffer s' = singleBuffer s"
proof (cases "hw_reads s" rule: press_release_cases)
  case no_press
  from main_no_press [OF this] show ?thesis by (rule button)
next
  case (no_release up dn)
  from main_no_release [OF this] show ?thesis by (rule button)
next
  case (both up dn v rest)
  let ?vs = "up @ 0 # dn @ [v]"
  let ?s2 = "s\<lparr>trace := trace s @ main_prologue @
                     map (GPIO_PinInGet gpioPortD 2) ?vs @ main_setup k,
          hw_reads := rest, descriptor := started_descriptor\<rparr>"
  have m: "main k s = em_EM2_RTCC k cmuSelect_LFRCO False ?s2"
    by (rule main_press_release [OF both])
  have vs: "hw_reads s = ?vs @ rest" using both(1) by simp
  have pr: "press_release ?vs" unfolding press_release_def using both(2-4) by blast
  show ?thesis
  proof (cases k cmuSelect_LFRCO False ?s2 rule: em_EM2_RTCC_cases)
    case (hf s' d1)
    show ?thesis
      by (rule that(2) [OF vs pr, of s' d1]) (use hf m in simp_all)
  next
    case (lf s' d1 d2)
    show ?thesis
      by (rule that(3) [OF vs pr, of s' d1 d2]) (use lf m in simp_all)
  next
    case (ret s' d1 d2)
    show ?thesis
      by (rule that(4) [OF vs pr, of s' d1 d2]) (use ret m in simp_all)
  qed
qed

lemma status_read_cases:
  assumes "list_all is_status_read d" "e \<in> set d"
  obtains p v where "e = Reg_read (STATUS p) v"
proof -
  from assms have "is_status_read e" by (simp add: list_all_iff)
  then show thesis by (cases e rule: is_status_read.cases) (auto intro: that)
qed

lemma status_reads_no_pin:
  "list_all is_status_read d \<Longrightarrow> GPIO_PinInGet p n v \<notin> set d"
  by (auto elim: status_read_cases)


lemma status_reads_no_op:
  assumes "list_all is_status_read d"
  shows "LDMA_StartTransfer ch cfg x \<notin> set d" "IADC_command i c \<notin> set d"
    "EMU_RamPowerDown a n \<notin> set d"
  using assms by (auto elim: status_read_cases)

lemma pins_no_op:
  "LDMA_StartTransfer ch cfg x \<notin> set (map (GPIO_PinInGet p n) vs)"
  "IADC_command i c \<notin> set (map (GPIO_PinInGet p n) vs)"
  "EMU_RamPowerDown a m \<notin> set (map (GPIO_PinInGet p n) vs)"
  by auto


section \<open>main reaches EM2 when the hardware lets it\<close>

text \<open>
  Whatever the parameters, main gets to EMU_EnterEM2 as soon as the reads give a press
  and a release of PB0 and then show the clocks as stopped: a poll that never ends is
  the only thing that can keep it from EM2.
\<close>

lemma em_EM2_RTCC_returns:
  assumes "hw_reads s = 0 # 0 # 0 # rest"
  shows "returned (em_EM2_RTCC k osc pd s)"
  using assms
  by (simp add: em_EM2_RTCC_unfold disableHFClocks_unfold disableLFClocks_unfold read_hw_def)

lemma main_reaches_EM2:
  assumes "hw_reads s = up @ 0 # dn @ v # 0 # 0 # 0 # rest"
    and "\<forall>x\<in>set up. x \<noteq> 0" and "\<forall>x\<in>set dn. x = 0" and "v \<noteq> 0"
  shows "returned (main k s)"
proof -
  have "hw_reads s = up @ 0 # dn @ v # (0 # 0 # 0 # rest)" using assms(1) by simp
  from main_press_release [OF this assms(2-4), of k]
  have "main k s = em_EM2_RTCC k cmuSelect_LFRCO False
       (s\<lparr>trace := trace s @ main_prologue @
                     map (GPIO_PinInGet gpioPortD 2) (up @ 0 # dn @ [v]) @ main_setup k,
          hw_reads := 0 # 0 # 0 # rest, descriptor := started_descriptor\<rparr>)" .
  moreover have "returned (em_EM2_RTCC k cmuSelect_LFRCO False
       (s\<lparr>trace := trace s @ main_prologue @
                     map (GPIO_PinInGet gpioPortD 2) (up @ 0 # dn @ [v]) @ main_setup k,
          hw_reads := 0 # 0 # 0 # rest, descriptor := started_descriptor\<rparr>))"
    by (rule em_EM2_RTCC_returns [of _ rest]) simp
  ultimately show ?thesis by simp
qed

section \<open>The concrete device runs to EM2\<close>

lemma example_main_returns:
  "returned (main example_sdk (cpu (power_on example_reads)))"
  by (simp add: main_def stmt_def call_def read_hw_def power_on_def example_reads_def
      example_sdk_def em_EM2_RTCC_def disableClocks_def disableHFClocks_def
      disableLFClocks_def PB_PRESSED_def initIADC_eq initLDMA_eq)

lemma example_em_returns:
  "returned (em_EM2_RTCC example_sdk cmuSelect_LFXO True (cpu (power_on [0, 0, 0])))"
  by (simp add: stmt_def call_def read_hw_def power_on_def
      example_sdk_def em_EM2_RTCC_def disableClocks_def disableHFClocks_def
      disableLFClocks_def)

lemma returned_final: "returned r \<Longrightarrow> r = Returned (final r)"
  by (cases r) simp_all


section \<open>The handler\<close>

lemma LDMA_IRQHandler_eq:
  "LDMA_IRQHandler s = s\<lparr>trace := trace s @ handler_calls\<rparr>"
  by (simp add: LDMA_IRQHandler_def call_def handler_calls_def)

lemma concat_replicate_snoc: "concat (replicate n xs) @ xs = xs @ concat (replicate n xs)"
  by (induction n) simp_all

section \<open>The stages of a trace\<close>











lemma handler_calls_set:
  "set (concat (replicate n handler_calls)) \<subseteq> set handler_calls"
  by (induction n) auto


section \<open>The operations of a trace\<close>

lemma operations_append: "operations (xs @ ys) = operations xs @ operations ys"
  by (simp add: operations_def)

lemma operations_pins: "operations (map (GPIO_PinInGet p n) vs) = []"
  by (induction vs) (simp_all add: operations_def)

lemma operations_status_reads: "list_all is_status_read d \<Longrightarrow> operations d = []"
proof (induction d)
  case Nil
  then show ?case by (simp add: operations_def)
next
  case (Cons e d)
  then have "is_status_read e" by simp
  then have "is_poll e" by (cases e rule: is_status_read.cases) simp_all
  with Cons show ?case by (simp add: operations_def)
qed

lemma operations_fixed:
  "operations main_prologue = main_prologue"
  "operations (main_setup k) = main_setup k"
  "operations HF_writes = HF_writes"
  "operations LF_writes = LF_writes"
  "operations (EM2_entry osc pd) = EM2_entry osc pd"
  "operations handler_calls = handler_calls"
  by (simp_all add: operations_def main_prologue_def main_setup_def initIADC_calls_def
      initLDMA_calls_def HF_writes_def LF_writes_def EM2_entry_def handler_calls_def)

lemma operations_handler_runs:
  "operations (concat (replicate n handler_calls)) = concat (replicate n handler_calls)"
  by (induction n) (simp_all add: operations_append operations_fixed, simp add: operations_def)

lemma main_operations_cases:
  obtains (polling) "\<not> returned (main k s)" "hw_reads (final (main k s)) = []"
      "operations (trace (final (main k s))) = operations (trace s) @ main_prologue \<or>
       operations (trace (final (main k s))) =
         operations (trace s) @ main_prologue @ main_setup k @ HF_writes \<or>
       operations (trace (final (main k s))) =
         operations (trace s) @ main_prologue @ main_setup k @ HF_writes @ LF_writes"
  | (sleeping) "returned (main k s)"
      "operations (trace (final (main k s))) = operations (trace s) @ main_operations k"
proof (cases k s rule: main_cases)
  case button
  then show ?thesis
    by (intro polling) (simp_all add: operations_append operations_pins operations_fixed)
next
  case (hf vs rest s' d1)
  then show ?thesis
    by (intro polling) (simp_all add: operations_append operations_pins operations_fixed
        operations_status_reads)
next
  case (lf vs rest s' d1 d2)
  then show ?thesis
    by (intro polling) (simp_all add: operations_append operations_pins operations_fixed
        operations_status_reads)
next
  case (sleeping vs rest s' d1 d2)
  then show ?thesis
    by (intro that(2)) (simp_all add: operations_append operations_pins operations_fixed
        operations_status_reads main_operations_def)
qed


section \<open>Runs with the interrupt\<close>


lemma own_append: "own (xs @ ys) = own xs @ own ys"
  by (simp add: own_def)

lemma own_handler_calls: "own handler_calls = []"
  by (simp add: own_def)

lemma own_handler_runs: "own (concat (replicate n handler_calls)) = []"
  by (induction n) (simp_all add: own_append own_handler_calls, simp add: own_def)


lemma fixed_not_handler:
  "\<forall>e\<in>set (main_prologue @ main_setup k @ HF_writes @ LF_writes @ EM2_entry osc pd).
     e \<notin> set handler_calls"
  by (simp add: main_prologue_def main_setup_def initIADC_calls_def initLDMA_calls_def
      HF_writes_def LF_writes_def EM2_entry_def handler_calls_def)

lemma pins_not_handler:
  "\<forall>e\<in>set (map (GPIO_PinInGet p n) vs). e \<notin> set handler_calls"
  by (auto simp: handler_calls_def)

lemma status_reads_not_handler:
  "list_all is_status_read d \<Longrightarrow> \<forall>e\<in>set d. e \<notin> set handler_calls"
  by (auto simp: handler_calls_def elim: status_read_cases)

lemma main_events_cases [case_names button hf lf sleeping]:
  obtains
    (button) "\<not> returned (main k (cpu (power_on rs)))"
      "main_events k rs = main_prologue @ map (GPIO_PinInGet gpioPortD 2) rs"
  | (hf) vs rest d1 where "rs = vs @ rest" "press_release vs"
      "\<not> returned (main k (cpu (power_on rs)))"
      "main_events k rs = main_prologue @ map (GPIO_PinInGet gpioPortD 2) vs @
                  main_setup k @ HF_writes @ d1"
      "list_all is_status_read d1"
  | (lf) vs rest d1 d2 where "rs = vs @ rest" "press_release vs"
      "\<not> returned (main k (cpu (power_on rs)))"
      "main_events k rs = main_prologue @ map (GPIO_PinInGet gpioPortD 2) vs @
                  main_setup k @ HF_writes @ d1 @ LF_writes @ d2"
      "list_all is_status_read d1" "list_all is_status_read d2"
  | (sleeping) vs rest d1 d2 where "rs = vs @ rest" "press_release vs"
      "returned (main k (cpu (power_on rs)))"
      "main_events k rs = main_prologue @ map (GPIO_PinInGet gpioPortD 2) vs @
                  main_setup k @ HF_writes @ d1 @ LF_writes @ d2 @
                  EM2_entry cmuSelect_LFRCO False"
      "list_all is_status_read d1" "list_all is_status_read d2"
proof -
  let ?s0 = "cpu (power_on rs)"
  have t0: "trace ?s0 = []" "hw_reads ?s0 = rs" by (simp_all add: power_on_def)
  show thesis
  proof (cases k ?s0 rule: main_cases)
    case button
    show ?thesis by (rule that(1)) (simp_all add: button main_events_def t0)
  next
    case (hf vs rest s' d1)
    show ?thesis
      by (rule that(2) [of vs rest d1]) (use hf t0 in \<open>simp_all add: main_events_def\<close>)
  next
    case (lf vs rest s' d1 d2)
    show ?thesis
      by (rule that(3) [of vs rest d1 d2]) (use lf t0 in \<open>simp_all add: main_events_def\<close>)
  next
    case (sleeping vs rest s' d1 d2)
    show ?thesis
      by (rule that(4) [of vs rest d1 d2]) (use sleeping t0 in \<open>simp_all add: main_events_def\<close>)
  qed
qed

lemma main_events_not_handler: "\<forall>e\<in>set (main_events k rs). e \<notin> set handler_calls"
proof (cases k rs rule: main_events_cases)
  case button
  then show ?thesis
    using fixed_not_handler [of k cmuSelect_LFRCO False] pins_not_handler by auto
next
  case (hf vs rest d1)
  then show ?thesis
    using fixed_not_handler [of k cmuSelect_LFRCO False] pins_not_handler
      status_reads_not_handler [OF hf(5)]
    by auto
next
  case (lf vs rest d1 d2)
  then show ?thesis
    using fixed_not_handler [of k cmuSelect_LFRCO False] pins_not_handler
      status_reads_not_handler [OF lf(5)] status_reads_not_handler [OF lf(6)]
    by auto
next
  case (sleeping vs rest d1 d2)
  then show ?thesis
    using fixed_not_handler [of k cmuSelect_LFRCO False] pins_not_handler
      status_reads_not_handler [OF sleeping(5)] status_reads_not_handler [OF sleeping(6)]
    by auto
qed

lemma on_track_launch: "on_track k rs (launch k rs)"
  by (simp add: on_track_def launch_def own_def)

lemma on_track_step:
  assumes "on_track k rs r"
  shows "on_track k rs (step irq r)"
proof (cases irq)
  case True
  have "\<exists>pre. so_far r @ handler_calls = pre @ handler_calls" by blast
  then show ?thesis using assms True
    by (auto simp: on_track_def step_def own_append own_handler_calls)
next
  case False
  show ?thesis
  proof (cases "to_do r")
    case Nil
    then show ?thesis using assms False by (simp add: step_def)
  next
    case (Cons e es)
    with assms have "e \<in> set (main_events k rs)"
      by (metis on_track_def in_set_conv_decomp)
    then have "e \<notin> set handler_calls" using main_events_not_handler by blast
    then have "own [e] = [e]" by (simp add: own_def)
    then show ?thesis using assms False Cons
      by (auto simp: on_track_def step_def own_append)
  qed
qed

lemma on_track_run: "on_track k rs r \<Longrightarrow> on_track k rs (run irqs r)"
  by (induction irqs arbitrary: r) (simp_all add: on_track_step)

lemma on_track_from_reset: "on_track k rs (run irqs (launch k rs))"
  by (rule on_track_run, rule on_track_launch)


lemma own_so_far_prefix:
  "on_track k rs r \<Longrightarrow> prefix (own (so_far r)) (main_events k rs)"
  by (metis on_track_def prefixI)





lemma operations_prefix: "prefix xs ys \<Longrightarrow> prefix (operations xs) (operations ys)"
  by (auto simp: prefix_def operations_append)























text \<open>What a run does at most once, and what it never does again.\<close>

lemma operations_on_track:
  assumes "on_track k rs r"
  shows "prefix (operations (own (so_far r))) (main_operations k)"
proof -
  let ?s0 = "cpu (power_on rs)"
  have t0: "trace ?s0 = []" by (simp add: power_on_def)
  have m: "prefix (operations (main_events k rs)) (main_operations k)"
    unfolding main_events_def
    by (rule main_operations_cases [where k = k and s = "?s0"])
       (auto simp: main_operations_def t0 operations_def)
  from operations_prefix [OF own_so_far_prefix [OF assms]] m
  show ?thesis by (rule prefix_order.trans)
qed


















section \<open>The calls of em_EM2_RTCC\<close>

text \<open>
  A call of em_EM2_RTCC that reaches EMU_EnterEM2 has, as its last operations and in
  this order, selected its argument \<open>osc\<close> as the clock of the RTCC, called RTCC_Init
  with prescaler 256 and wrap on CCV1 (the other fields as RTCC_INIT_DEFAULT has them),
  powered RAM down if asked to, and entered EM2. The write RTCC->EN_CLR = 1 of
  disableLFClocks comes before that, and nothing between it and the entry into EM2
  calls RTCC_Init a second time or enters EM2. In main the call is the only one and the
  oscillator is the LFRCO. What RTCC_Init does to the peripheral, and so whether the
  RTCC counts when the processor sleeps, is the vendor library's business and is not
  said here.
\<close>

lemma em_EM2_RTCC_sets_up_RTCC:
  "(em_EM2_RTCC k osc pd s = Returned s' \<longrightarrow>
      (\<exists>pre. trace s' =
           trace s @ pre @
           [CMU_ClockSelectSet cmuClock_RTCCCLK osc,
            RTCC_Init \<lparr>presc = Some rtccCntPresc_256, cntWrapOnCCV1 = Some True\<rparr>] @
           (if pd then [EMU_RamPowerDown SRAM_BASE 0] else []) @
           [EMU_EnterEM2 True] \<and>
         Reg_write (EN_CLR RTCC) 1 \<in> set pre \<and>
         (\<forall>i. RTCC_Init i \<notin> set pre) \<and> (\<forall>r. EMU_EnterEM2 r \<notin> set pre))) \<and>
   (main k t = Returned t' \<longrightarrow>
      (\<exists>pre. trace t' =
           trace t @ pre @
           [CMU_ClockSelectSet cmuClock_RTCCCLK cmuSelect_LFRCO,
            RTCC_Init \<lparr>presc = Some rtccCntPresc_256, cntWrapOnCCV1 = Some True\<rparr>,
            EMU_EnterEM2 True] \<and>
         Reg_write (EN_CLR RTCC) 1 \<in> set pre \<and>
         (\<forall>i. RTCC_Init i \<notin> set pre) \<and> (\<forall>r. EMU_EnterEM2 r \<notin> set pre)))"
proof (intro conjI impI)
  assume r: "em_EM2_RTCC k osc pd s = Returned s'"
  show "\<exists>pre. trace s' =
           trace s @ pre @
           [CMU_ClockSelectSet cmuClock_RTCCCLK osc,
            RTCC_Init \<lparr>presc = Some rtccCntPresc_256, cntWrapOnCCV1 = Some True\<rparr>] @
           (if pd then [EMU_RamPowerDown SRAM_BASE 0] else []) @
           [EMU_EnterEM2 True] \<and>
         Reg_write (EN_CLR RTCC) 1 \<in> set pre \<and>
         (\<forall>i. RTCC_Init i \<notin> set pre) \<and> (\<forall>r. EMU_EnterEM2 r \<notin> set pre)"
  proof (cases k osc pd s rule: em_EM2_RTCC_cases)
    case (hf s'' d1)
    with r show ?thesis by simp
  next
    case (lf s'' d1 d2)
    with r show ?thesis by simp
  next
    case (ret s'' d1 d2)
    with r have s': "s'' = s'" by simp
    let ?pre = "HF_writes @ d1 @ LF_writes @ d2"
    have d: "\<And>e. e \<in> set d1 \<or> e \<in> set d2 \<Longrightarrow> \<exists>p v. e = Reg_read (STATUS p) v"
      using ret(3,4) by (auto elim: status_read_cases)
    have "trace s' = trace s @ ?pre @
           [CMU_ClockSelectSet cmuClock_RTCCCLK osc,
            RTCC_Init \<lparr>presc = Some rtccCntPresc_256, cntWrapOnCCV1 = Some True\<rparr>] @
           (if pd then [EMU_RamPowerDown SRAM_BASE 0] else []) @
           [EMU_EnterEM2 True]"
      using ret(2) s' by (simp add: EM2_entry_def)
    moreover have "Reg_write (EN_CLR RTCC) 1 \<in> set ?pre" by (simp add: LF_writes_def)
    moreover have "\<forall>i. RTCC_Init i \<notin> set ?pre"
      using d by (auto simp: HF_writes_def LF_writes_def)
    moreover have "\<forall>r. EMU_EnterEM2 r \<notin> set ?pre"
      using d by (auto simp: HF_writes_def LF_writes_def)
    ultimately show ?thesis by blast
  qed
next
  assume r: "main k t = Returned t'"
  show "\<exists>pre. trace t' =
           trace t @ pre @
           [CMU_ClockSelectSet cmuClock_RTCCCLK cmuSelect_LFRCO,
            RTCC_Init \<lparr>presc = Some rtccCntPresc_256, cntWrapOnCCV1 = Some True\<rparr>,
            EMU_EnterEM2 True] \<and>
         Reg_write (EN_CLR RTCC) 1 \<in> set pre \<and>
         (\<forall>i. RTCC_Init i \<notin> set pre) \<and> (\<forall>r. EMU_EnterEM2 r \<notin> set pre)"
  proof (cases k t rule: main_cases)
    case button
    with r show ?thesis by simp
  next
    case (hf vs rest s' d1)
    with r show ?thesis by simp
  next
    case (lf vs rest s' d1 d2)
    with r show ?thesis by simp
  next
    case (sleeping vs rest s'' d1 d2)
    with r have s': "s'' = t'" by simp
    let ?pre = "main_prologue @ map (GPIO_PinInGet gpioPortD 2) vs @
                  main_setup k @ HF_writes @ d1 @ LF_writes @ d2"
    have d: "\<And>e. e \<in> set d1 \<or> e \<in> set d2 \<Longrightarrow> \<exists>p v. e = Reg_read (STATUS p) v"
      using sleeping(5,6) by (auto elim: status_read_cases)
    have "trace t' = trace t @ ?pre @
           [CMU_ClockSelectSet cmuClock_RTCCCLK cmuSelect_LFRCO,
            RTCC_Init \<lparr>presc = Some rtccCntPresc_256, cntWrapOnCCV1 = Some True\<rparr>,
            EMU_EnterEM2 True]"
      using sleeping(4) s' by (simp add: EM2_entry_def)
    moreover have "Reg_write (EN_CLR RTCC) 1 \<in> set ?pre" by (simp add: LF_writes_def)
    moreover have "\<forall>i. RTCC_Init i \<notin> set ?pre"
      using d by (auto simp: HF_writes_def LF_writes_def main_prologue_def main_setup_def
          initIADC_calls_def initLDMA_calls_def)
    moreover have "\<forall>r. EMU_EnterEM2 r \<notin> set ?pre"
      using d by (auto simp: HF_writes_def LF_writes_def main_prologue_def main_setup_def
          initIADC_calls_def initLDMA_calls_def)
    ultimately show ?thesis by blast
  qed
qed


section \<open>The LDMA is started before the IADC timer is enabled\<close>

text \<open>
  In every run of main, whether it reaches EM2 or is still polling, the call
  LDMA_StartTransfer (made by initLDMA, on channel 0 and with the descriptor that
  initLDMA has filled in) comes immediately before the command iadcCmdEnableTimer to the
  IADC, and neither occurs anywhere else in the trace; a run in which they do not occur
  has not got past its polling. When the IADC converts and when the LDMA has a
  transfer pending is the hardware's business and is not said here.
\<close>

lemma LDMA_started_before_timer_enabled:
  "\<exists>dl. trace (final (main k s)) = trace s @ dl \<and>
     ((\<forall>ch cfg d. LDMA_StartTransfer ch cfg d \<notin> set dl) \<and>
      (\<forall>i. IADC_command i iadcCmdEnableTimer \<notin> set dl) \<and> \<not> returned (main k s)
      \<or>
      (\<exists>a b. dl = a @
          [LDMA_StartTransfer 0
             (LDMA_TRANSFER_CFG_PERIPHERAL ldmaPeripheralSignal_IADC0_IADC_SINGLE)
             started_descriptor,
           IADC_command IADC0 iadcCmdEnableTimer] @ b \<and>
        (\<forall>ch cfg d. LDMA_StartTransfer ch cfg d \<notin> set a \<union> set b) \<and>
        (\<forall>i. IADC_command i iadcCmdEnableTimer \<notin> set a \<union> set b)))"
proof -
  let ?S = "LDMA_StartTransfer 0
             (LDMA_TRANSFER_CFG_PERIPHERAL ldmaPeripheralSignal_IADC0_IADC_SINGLE)
             started_descriptor"
  let ?E = "IADC_command IADC0 iadcCmdEnableTimer"
  have fin: ?thesis
    if "trace (final (main k s)) = trace s @ (a @ [?S, ?E] @ b)"
      "\<forall>ch cfg d. LDMA_StartTransfer ch cfg d \<notin> set a \<union> set b"
      "\<forall>i. IADC_command i iadcCmdEnableTimer \<notin> set a \<union> set b" for a b
    using that by blast
  show ?thesis
proof (cases k s rule: main_cases)
  case button
  show ?thesis
    by (rule exI [of _ "main_prologue @ map (GPIO_PinInGet gpioPortD 2) (hw_reads s)"])
       (auto simp: button main_prologue_def)
next
  case (hf vs rest s' d1)
  let ?a = "main_prologue @ map (GPIO_PinInGet gpioPortD 2) vs @
     [GPIO_PinModeSet gpioPortD 2 gpioModeDisabled 1,
      GPIO_PinModeSet gpioPortB 1 gpioModePushPull 0,
      EMU_EM23Init EMU_EM23INIT_DEFAULT,
      CMU_HFXOInit CMU_HFXOINIT_WSTK_DEFAULT,
      CMU_HFRCOEM23BandSet cmuHFRCOEM23Freq_1M0Hz] @
     initIADC_calls k @ [LDMA_Init LDMA_INIT_DEFAULT]"
  let ?b = "HF_writes @ d1"
  have "trace s' = trace s @ (?a @ [?S, ?E] @ ?b)"
    using hf(4) by (simp add: main_setup_def initLDMA_calls_def)
  moreover have "\<forall>ch cfg d. LDMA_StartTransfer ch cfg d \<notin> set ?a \<union> set ?b"
    using status_reads_no_op(1) [OF hf(5)]
    by (auto simp: main_prologue_def initIADC_calls_def HF_writes_def)
  moreover have "\<forall>i. IADC_command i iadcCmdEnableTimer \<notin> set ?a \<union> set ?b"
    using status_reads_no_op(2) [OF hf(5)]
    by (auto simp: main_prologue_def initIADC_calls_def HF_writes_def)
  ultimately show ?thesis using hf(3) by (intro fin [of ?a ?b]) simp_all
next
  case (lf vs rest s' d1 d2)
  let ?a = "main_prologue @ map (GPIO_PinInGet gpioPortD 2) vs @
     [GPIO_PinModeSet gpioPortD 2 gpioModeDisabled 1,
      GPIO_PinModeSet gpioPortB 1 gpioModePushPull 0,
      EMU_EM23Init EMU_EM23INIT_DEFAULT,
      CMU_HFXOInit CMU_HFXOINIT_WSTK_DEFAULT,
      CMU_HFRCOEM23BandSet cmuHFRCOEM23Freq_1M0Hz] @
     initIADC_calls k @ [LDMA_Init LDMA_INIT_DEFAULT]"
  let ?b = "HF_writes @ d1 @ LF_writes @ d2"
  have "trace s' = trace s @ (?a @ [?S, ?E] @ ?b)"
    using lf(4) by (simp add: main_setup_def initLDMA_calls_def)
  moreover have "\<forall>ch cfg d. LDMA_StartTransfer ch cfg d \<notin> set ?a \<union> set ?b"
    using status_reads_no_op(1) [OF lf(5)] status_reads_no_op(1) [OF lf(6)]
    by (auto simp: main_prologue_def initIADC_calls_def HF_writes_def LF_writes_def)
  moreover have "\<forall>i. IADC_command i iadcCmdEnableTimer \<notin> set ?a \<union> set ?b"
    using status_reads_no_op(2) [OF lf(5)] status_reads_no_op(2) [OF lf(6)]
    by (auto simp: main_prologue_def initIADC_calls_def HF_writes_def LF_writes_def)
  ultimately show ?thesis using lf(3) by (intro fin [of ?a ?b]) simp_all
next
  case (sleeping vs rest s' d1 d2)
  let ?a = "main_prologue @ map (GPIO_PinInGet gpioPortD 2) vs @
     [GPIO_PinModeSet gpioPortD 2 gpioModeDisabled 1,
      GPIO_PinModeSet gpioPortB 1 gpioModePushPull 0,
      EMU_EM23Init EMU_EM23INIT_DEFAULT,
      CMU_HFXOInit CMU_HFXOINIT_WSTK_DEFAULT,
      CMU_HFRCOEM23BandSet cmuHFRCOEM23Freq_1M0Hz] @
     initIADC_calls k @ [LDMA_Init LDMA_INIT_DEFAULT]"
  let ?b = "HF_writes @ d1 @ LF_writes @ d2 @ EM2_entry cmuSelect_LFRCO False"
  have "trace s' = trace s @ (?a @ [?S, ?E] @ ?b)"
    using sleeping(4) by (simp add: main_setup_def initLDMA_calls_def)
  moreover have "\<forall>ch cfg d. LDMA_StartTransfer ch cfg d \<notin> set ?a \<union> set ?b"
    using status_reads_no_op(1) [OF sleeping(5)] status_reads_no_op(1) [OF sleeping(6)]
    by (auto simp: main_prologue_def initIADC_calls_def HF_writes_def LF_writes_def
        EM2_entry_def)
  moreover have "\<forall>i. IADC_command i iadcCmdEnableTimer \<notin> set ?a \<union> set ?b"
    using status_reads_no_op(2) [OF sleeping(5)] status_reads_no_op(2) [OF sleeping(6)]
    by (auto simp: main_prologue_def initIADC_calls_def HF_writes_def LF_writes_def
        EM2_entry_def)
  ultimately show ?thesis using sleeping(3) by (intro fin [of ?a ?b]) simp_all
qed
qed

section \<open>EMU_RamPowerDown is called only on request\<close>

text \<open>
  em_EM2_RTCC calls EMU_RamPowerDown when its argument powerdownRam is true, and only
  then. main passes false: no run from reset, with or without the interrupt, has a call
  of EMU_RamPowerDown in its trace.
\<close>

lemma EMU_RamPowerDown_only_on_request:
  "(\<forall>a n. EMU_RamPowerDown a n \<notin> set (so_far (run irqs (launch k rs)))) \<and>
   ((\<forall>a n. EMU_RamPowerDown a n \<notin> set (trace s)) \<longrightarrow>
      (\<forall>a n. EMU_RamPowerDown a n \<notin> set (trace (final (em_EM2_RTCC k osc False s))))) \<and>
   (em_EM2_RTCC k osc True s = Returned s' \<longrightarrow>
      EMU_RamPowerDown SRAM_BASE 0 \<in> set (trace s'))"
proof (intro conjI impI)
  let ?r = "run irqs (launch k rs)"
  have fixed: "EMU_RamPowerDown a n \<notin> set (main_prologue @ main_setup k @ HF_writes @ LF_writes @
      EM2_entry cmuSelect_LFRCO False @ handler_calls)" for a n
    by (simp add: main_prologue_def main_setup_def initIADC_calls_def initLDMA_calls_def
        HF_writes_def LF_writes_def EM2_entry_def handler_calls_def)
  have main_free: "EMU_RamPowerDown a n \<notin> set (main_events k rs)" for a n
  proof (cases k rs rule: main_events_cases)
    case button
    then show ?thesis using fixed [of a n] by auto
  next
    case (hf vs rest d1)
    then show ?thesis using fixed [of a n] status_reads_no_op(3) [OF hf(5)]
      by auto
  next
    case (lf vs rest d1 d2)
    then show ?thesis
      using fixed [of a n] status_reads_no_op(3) [OF lf(5)] status_reads_no_op(3) [OF lf(6)]
      by auto
  next
    case (sleeping vs rest d1 d2)
    then show ?thesis
      using fixed [of a n] status_reads_no_op(3) [OF sleeping(5)]
        status_reads_no_op(3) [OF sleeping(6)]
      by auto
  qed
  have "EMU_RamPowerDown a n \<notin> set (so_far ?r)" for a n
  proof
    assume "EMU_RamPowerDown a n \<in> set (so_far ?r)"
    then have "EMU_RamPowerDown a n \<in> set (own (so_far ?r))"
      by (simp add: own_def handler_calls_def)
    with set_mono_prefix [OF own_so_far_prefix [OF on_track_from_reset [of k rs irqs]]]
      main_free [of a n]
    show False by blast
  qed
  then show "\<forall>a n. EMU_RamPowerDown a n \<notin> set (so_far ?r)" by blast
next
  assume free: "\<forall>a n. EMU_RamPowerDown a n \<notin> set (trace s)"
  have fixed: "EMU_RamPowerDown a n \<notin> set (HF_writes @ LF_writes @ EM2_entry osc False)" for a n
    by (simp add: HF_writes_def LF_writes_def EM2_entry_def)
  show "\<forall>a n. EMU_RamPowerDown a n \<notin> set (trace (final (em_EM2_RTCC k osc False s)))"
  proof (cases k osc False s rule: em_EM2_RTCC_cases)
    case (hf s' d1)
    then show ?thesis using free fixed status_reads_no_op(3) [OF hf(3)] by auto
  next
    case (lf s' d1 d2)
    then show ?thesis
      using free fixed status_reads_no_op(3) [OF lf(3)] status_reads_no_op(3) [OF lf(4)]
      by auto
  next
    case (ret s' d1 d2)
    then show ?thesis
      using free fixed status_reads_no_op(3) [OF ret(3)] status_reads_no_op(3) [OF ret(4)]
      by auto
  qed
next
  assume r: "em_EM2_RTCC k osc True s = Returned s'"
  show "EMU_RamPowerDown SRAM_BASE 0 \<in> set (trace s')"
  proof (cases k osc True s rule: em_EM2_RTCC_cases)
    case (hf s'' d1)
    with r show ?thesis by simp
  next
    case (lf s'' d1 d2)
    with r show ?thesis by simp
  next
    case (ret s'' d1 d2)
    with r have "s'' = s'" by simp
    with ret(2) show ?thesis by (simp add: EM2_entry_def)
  qed
qed

section \<open>The interrupt handler\<close>

text \<open>
  C3. LDMA_IRQHandler does three things, in this order: it clears the flag DONE0 of the
  LDMA, gives the IADC the command to stop single conversions, and sets pin 1 of GPIO
  port B. The state after it is the state before it with these three calls added to the
  trace: no value is taken from the hardware, and the globals descriptor and singleBuffer
  are as they were.
\<close>

theorem LDMA_IRQHandler_three_effects:
  "LDMA_IRQHandler s =
     s\<lparr>trace := trace s @ [LDMA_IntClear LDMA_IF_DONE0,
                            IADC_command IADC0 iadcCmdStopSingle,
                            GPIO_PinOutSet gpioPortB 1]\<rparr>"
  by (simp add: LDMA_IRQHandler_def call_def)

section \<open>The loop of disableLFClocks\<close>

text \<open>
  C9. When disableLFClocks returns, the last test of its loop read 0: either
  LFRCO->STATUS gave 0, or LFRCO->STATUS did not and LFXO->STATUS then gave 0. One of
  the two oscillators has reported 0, and not necessarily both: there is a run that
  returns with LFRCO->STATUS last read as not 0, and a run that returns with
  LFXO->STATUS last read as not 0 and not read again.
\<close>

theorem disableLFClocks_exit_on_either:
  "(disableLFClocks s = Returned s' \<longrightarrow> (\<exists>d. trace s' = trace s @ d \<and> LF_exit d)) \<and>
   (\<exists>t t' pre a. disableLFClocks t = Returned t' \<and> a \<noteq> 0 \<and>
      trace t' = pre @ [Reg_read (STATUS LFRCO) a, Reg_read (STATUS LFXO) 0]) \<and>
   (\<exists>t t' pre b. disableLFClocks t = Returned t' \<and> b \<noteq> 0 \<and>
      trace t' = pre @ [Reg_read (STATUS LFXO) b, Reg_read (STATUS LFRCO) 0])"
proof (intro conjI impI)
  assume r: "disableLFClocks s = Returned s'"
  let ?s0 = "s\<lparr>trace := trace s @ LF_writes\<rparr>"
  from r have "disableLFClocks_wait ?s0 = Returned s'"
    by (simp only: disableLFClocks_unfold)
  from disableLFClocks_wait_exit [OF this]
  obtain d where d: "trace s' = trace ?s0 @ d" "LF_exit d" by blast
  have "LF_exit (LF_writes @ d)"
    using d(2) unfolding LF_exit_def by (metis append.assoc)
  moreover have "trace s' = trace s @ (LF_writes @ d)" using d(1) by simp
  ultimately show "\<exists>d. trace s' = trace s @ d \<and> LF_exit d" by blast
next
  let ?t = "cpu (power_on [1, 0])"
  have "disableLFClocks ?t =
      Returned (?t\<lparr>trace := LF_writes @ [Reg_read (STATUS LFRCO) 1, Reg_read (STATUS LFXO) 0],
                   hw_reads := []\<rparr>)"
    by (simp add: disableLFClocks_unfold power_on_def read_hw_def)
  then show "\<exists>t t' pre a. disableLFClocks t = Returned t' \<and> a \<noteq> 0 \<and>
      trace t' = pre @ [Reg_read (STATUS LFRCO) a, Reg_read (STATUS LFXO) 0]"
    by (intro exI [of _ ?t] exI [of _ "?t\<lparr>trace := LF_writes @ [Reg_read (STATUS LFRCO) 1, Reg_read (STATUS LFXO) 0], hw_reads := []\<rparr>"]
        exI [of _ LF_writes] exI [of _ 1]) simp
next
  let ?t = "cpu (power_on [1, 1, 0])"
  let ?t' = "?t\<lparr>trace := (LF_writes @ [Reg_read (STATUS LFRCO) 1]) @
                 [Reg_read (STATUS LFXO) 1, Reg_read (STATUS LFRCO) 0],
               hw_reads := []\<rparr>"
  have "disableLFClocks ?t = Returned ?t'"
    by (simp add: disableLFClocks_unfold power_on_def read_hw_def)
  then show "\<exists>t t' pre b. disableLFClocks t = Returned t' \<and> b \<noteq> 0 \<and>
      trace t' = pre @ [Reg_read (STATUS LFXO) b, Reg_read (STATUS LFRCO) 0]"
    by (intro exI [of _ ?t] exI [of _ ?t']
        exI [of _ "LF_writes @ [Reg_read (STATUS LFRCO) 1]"] exI [of _ 1]) simp
qed

theorem disableLFClocks_exit_on_either_witness:
  "disableLFClocks (cpu (power_on [7, 0])) =
     Returned (cpu (power_on [7, 0])
       \<lparr>trace := LF_writes @ [Reg_read (STATUS LFRCO) 7, Reg_read (STATUS LFXO) 0],
        hw_reads := []\<rparr>) \<and>
   (\<exists>d. LF_writes @ [Reg_read (STATUS LFRCO) 7, Reg_read (STATUS LFXO) 0] = d \<and> LF_exit d)"
  using disableLFClocks_exit_on_either [of "cpu (power_on [7, 0])"
      "cpu (power_on [7, 0])
       \<lparr>trace := LF_writes @ [Reg_read (STATUS LFRCO) 7, Reg_read (STATUS LFXO) 0],
        hw_reads := []\<rparr>"]
  by (simp add: disableLFClocks_unfold power_on_def read_hw_def)

section \<open>The wait on PB0\<close>

text \<open>
  C8. The calls of GPIO_PinInGet in main are one block, right after the pin is made an
  input, and each reads pin 2 of port D. If main does anything after that block, and so
  whenever it reaches EM2, the values read in the block are a press and a release: not 0
  any number of times, then 0, then 0 any number of times, then a value that is not 0.
  The first operation after the block sets the mode of pin 2 of port D to disabled, and
  no call of GPIO_PinInGet follows: the rest of the run does not look at the button.
\<close>

theorem main_waits_for_press_and_release:
  "\<exists>vs tl.
     trace (final (main k s)) =
       trace s @ [CHIP_Init, GPIO_PinModeSet gpioPortD 2 gpioModeInputPullFilter 1] @
       map (GPIO_PinInGet gpioPortD 2) vs @ tl \<and>
     prefix vs (hw_reads s) \<and>
     (\<forall>p n v. GPIO_PinInGet p n v \<notin> set tl) \<and>
     (tl \<noteq> [] \<longrightarrow>
        press_release vs \<and> hd tl = GPIO_PinModeSet gpioPortD 2 gpioModeDisabled 1) \<and>
     (returned (main k s) \<longrightarrow> tl \<noteq> [])"
proof (cases k s rule: main_cases)
  case button
  show ?thesis
    by (rule exI [of _ "hw_reads s"], rule exI [of _ "[]"])
       (simp add: button main_prologue_def)
next
  case (hf vs rest s' d1)
  let ?tl = "main_setup k @ HF_writes @ d1"
  have "\<forall>p n v. GPIO_PinInGet p n v \<notin> set ?tl"
    using status_reads_no_pin [OF hf(5)]
    by (simp add: main_setup_def initIADC_calls_def initLDMA_calls_def HF_writes_def)
  moreover have "hd ?tl = GPIO_PinModeSet gpioPortD 2 gpioModeDisabled 1" "?tl \<noteq> []"
    by (simp_all add: main_setup_def)
  ultimately show ?thesis using hf(1-4)
    by (intro exI [of _ vs] exI [of _ ?tl]) (simp add: main_prologue_def)
next
  case (lf vs rest s' d1 d2)
  let ?tl = "main_setup k @ HF_writes @ d1 @ LF_writes @ d2"
  have "\<forall>p n v. GPIO_PinInGet p n v \<notin> set ?tl"
    using status_reads_no_pin [OF lf(5)] status_reads_no_pin [OF lf(6)]
    by (simp add: main_setup_def initIADC_calls_def initLDMA_calls_def HF_writes_def
        LF_writes_def)
  moreover have "hd ?tl = GPIO_PinModeSet gpioPortD 2 gpioModeDisabled 1" "?tl \<noteq> []"
    by (simp_all add: main_setup_def)
  ultimately show ?thesis using lf(1-4)
    by (intro exI [of _ vs] exI [of _ ?tl]) (simp add: main_prologue_def)
next
  case (sleeping vs rest s' d1 d2)
  let ?tl = "main_setup k @ HF_writes @ d1 @ LF_writes @ d2 @ EM2_entry cmuSelect_LFRCO False"
  have "\<forall>p n v. GPIO_PinInGet p n v \<notin> set ?tl"
    using status_reads_no_pin [OF sleeping(5)] status_reads_no_pin [OF sleeping(6)]
    by (simp add: main_setup_def initIADC_calls_def initLDMA_calls_def HF_writes_def
        LF_writes_def EM2_entry_def)
  moreover have "hd ?tl = GPIO_PinModeSet gpioPortD 2 gpioModeDisabled 1" "?tl \<noteq> []"
    by (simp_all add: main_setup_def)
  ultimately show ?thesis using sleeping(1-4)
    by (intro exI [of _ vs] exI [of _ ?tl]) (simp add: main_prologue_def)
qed

theorem main_waits_for_press_and_release_witness:
  "returned (main example_sdk (cpu (power_on example_reads))) \<and>
   (\<exists>vs tl.
      trace (final (main example_sdk (cpu (power_on example_reads)))) =
        [CHIP_Init, GPIO_PinModeSet gpioPortD 2 gpioModeInputPullFilter 1] @
        map (GPIO_PinInGet gpioPortD 2) vs @ tl \<and>
      prefix vs example_reads \<and> press_release vs \<and>
      hd tl = GPIO_PinModeSet gpioPortD 2 gpioModeDisabled 1)"
proof -
  have start: "trace (cpu (power_on example_reads)) = []"
      "hw_reads (cpu (power_on example_reads)) = example_reads"
    by (simp_all add: power_on_def)
  from main_waits_for_press_and_release [of example_sdk "cpu (power_on example_reads)"]
    example_main_returns
  show ?thesis
    unfolding start by (simp only: append_Nil simp_thms) blast
qed

section \<open>The stages of a run\<close>




section \<open>The pipeline runs once\<close>




section \<open>One path, and no failure\<close>

text \<open>
  C5. No function of the program gives a result that says whether it succeeded:
  initIADC, initLDMA and LDMA_IRQHandler are state transformers, and disableHFClocks,
  disableLFClocks, disableClocks, em_EM2_RTCC and main end in one of two ways only,
  returned, or still polling with no read left. What the program does never depends on
  a value that it got: whatever the reads give and whatever the vendor routines return
  (the parameter \<open>k\<close>), the operations of main, that is its trace without the polls,
  are an initial part of one fixed list, and the whole of it when main reaches EM2; the
  values read only decide how many polls there are, and the values computed by the IADC
  routines are passed on as arguments. With the interrupt served at any moments whatever,
  the operations of main itself in a run from reset are still an initial part of that
  list. No operation is done again or done instead of another: there is no retry and no
  recovery.
\<close>

theorem main_has_one_path:
  "prefix (operations (trace (final (main k s)))) (operations (trace s) @ main_operations k) \<and>
   (returned (main k s) \<longrightarrow>
      operations (trace (final (main k s))) = operations (trace s) @ main_operations k) \<and>
   (\<not> returned (main k s) \<longrightarrow> hw_reads (final (main k s)) = []) \<and>
   prefix (operations (own (so_far (run irqs (launch k rs))))) (main_operations k)"
proof (intro conjI impI)
  show "prefix (operations (trace (final (main k s)))) (operations (trace s) @ main_operations k)"
    by (rule main_operations_cases [where k = k and s = s]) (auto simp: main_operations_def)
  show "operations (trace (final (main k s))) = operations (trace s) @ main_operations k"
    if "returned (main k s)"
    by (rule main_operations_cases [where k = k and s = s]) (use that in simp_all)
  show "hw_reads (final (main k s)) = []" if "\<not> returned (main k s)"
    by (rule main_operations_cases [where k = k and s = s]) (use that in simp_all)
  show "prefix (operations (own (so_far (run irqs (launch k rs))))) (main_operations k)"
    by (rule operations_on_track [OF on_track_from_reset])
qed

theorem main_has_one_path_witness:
  "returned (main example_sdk (cpu (power_on example_reads))) \<and>
   operations (trace (final (main example_sdk (cpu (power_on example_reads))))) =
     main_operations example_sdk \<and>
   \<not> returned (main example_sdk (cpu (power_on [1, 0, 0]))) \<and>
   hw_reads (final (main example_sdk (cpu (power_on [1, 0, 0])))) = []"
proof -
  have t0: "operations (trace (cpu (power_on rs))) = []" for rs
    by (simp add: power_on_def operations_def)
  have p: "\<not> returned (main example_sdk (cpu (power_on [1, 0, 0])))"
    by (simp add: main_def stmt_def call_def read_hw_def power_on_def PB_PRESSED_def)
  from main_has_one_path [of example_sdk "cpu (power_on example_reads)" "[]" "[]"]
    main_has_one_path [of example_sdk "cpu (power_on [1, 0, 0])" "[]" "[]"]
    example_main_returns p
  show ?thesis by (simp only: t0 append_Nil) blast
qed

end
